theory Spec2Isabelle
  imports Complex_Main "HOL-Library.Sublist" "HOL-Library.AList"
begin

section \<open>Constants and string helpers (utils/common.ts)\<close>

text \<open>
  JavaScript strings are modelled as \<^typ>\<open>string\<close>; a character stands for a code unit
  below 256. Numbers that count things are \<^typ>\<open>nat\<close>; ratios are exact rationals.
\<close>

definition BATCH_SIZE :: nat where
  "BATCH_SIZE = 100"



text \<open>\<open>s.includes(sub)\<close>: \<open>sub\<close> occurs in \<open>s\<close> as a contiguous block.\<close>

fun includesStr :: "string \<Rightarrow> string \<Rightarrow> bool" where
  "includesStr [] sub = (sub = [])"
| "includesStr (c # cs) sub = (prefix sub (c # cs) \<or> includesStr cs sub)"

section \<open>The retry wrapper (services/batch-processor.ts, processBatchWithRetry)\<close>

text \<open>
  An error object as the provider raises it: a name, sometimes a numeric code, and a
  message, which is a string.
\<close>

record jsError =
  err_name :: string
  err_code :: "int option"
  err_message :: string

datatype callResult = Resolved string | Rejected jsError

text \<open>
  The wrapper catches \<open>error: any\<close>, so what it reads is any value a rejected promise
  can carry. It reads three properties. A property is absent (\<open>undefined\<close> or \<open>null\<close>),
  a string, a number, or some other value (a boolean or an object, without a callable
  \<open>includes\<close>). The caught value itself is \<open>null\<close> or \<open>undefined\<close>, or a value seen
  through these three properties; a string or a number that was thrown has all three
  absent.
\<close>

datatype jsProperty = Absent | StringProperty string | NumberProperty int | OtherProperty

record caughtObject =
  caught_name :: jsProperty
  caught_code :: jsProperty
  caught_message :: jsProperty

datatype caught = Nullish | Caught caughtObject


datatype exception = TypeError

text \<open>
  \<open>error?.name === 'TimeoutError' || error?.code === 23\<close>: with \<open>?.\<close> a nullish
  \<open>error\<close> gives \<open>undefined\<close> for both reads.
\<close>

definition isTimeout :: "caught \<Rightarrow> bool" where
  "isTimeout error =
     (case error of
        Nullish \<Rightarrow> False
      | Caught e \<Rightarrow>
          caught_name e = StringProperty ''TimeoutError'' \<or> caught_code e = NumberProperty 23)"

text \<open>
  \<open>error?.message?.includes(s)\<close>, as the truth value \<open>||\<close> sees: \<open>undefined\<close> (false)
  for a nullish error or an absent message, the search for a string message, and a
  \<open>TypeError\<close> for any other message, whose \<open>includes\<close> is not a function.
\<close>

definition messageIncludes :: "caught \<Rightarrow> string \<Rightarrow> exception + bool" where
  "messageIncludes error s =
     (case error of
        Nullish \<Rightarrow> Inr False
      | Caught e \<Rightarrow>
          (case caught_message e of
             Absent \<Rightarrow> Inr False
           | StringProperty m \<Rightarrow> Inr (includesStr m s)
           | NumberProperty n \<Rightarrow> Inl TypeError
           | OtherProperty \<Rightarrow> Inl TypeError))"

text \<open>\<open>||\<close> evaluates its right operand only when the left one is false.\<close>

definition isRetryable :: "caught \<Rightarrow> exception + bool" where
  "isRetryable error =
     (if isTimeout error then Inr True
      else case messageIncludes error ''rate limit'' of
             Inl ex \<Rightarrow> Inl ex
           | Inr True \<Rightarrow> Inr True
           | Inr False \<Rightarrow> messageIncludes error ''503'')"









section \<open>Cleaning and parsing a response (utils/common.ts, services/batch-processor.ts)\<close>

text \<open>
  The characters \<open>\s\<close> matches and \<open>trim\<close> removes, among code units below 256:
  tab, line feed, vertical tab, form feed, carriage return, space and no-break space.
\<close>

definition isWhiteSpace :: "char \<Rightarrow> bool" where
  "isWhiteSpace c =
     (c = CHR 0x09 \<or> c = CHR 0x0A \<or> c = CHR 0x0B \<or> c = CHR 0x0C \<or> c = CHR 0x0D
      \<or> c = CHR 0x20 \<or> c = CHR 0xA0)"

definition trimStart :: "string \<Rightarrow> string" where
  "trimStart s = dropWhile isWhiteSpace s"

definition trimEnd :: "string \<Rightarrow> string" where
  "trimEnd s = rev (dropWhile isWhiteSpace (rev s))"

definition trim :: "string \<Rightarrow> string" where
  "trim s = trimEnd (trimStart s)"

definition startsWith :: "string \<Rightarrow> string \<Rightarrow> bool" where
  "startsWith s p = prefix p s"

text \<open>
  \<open>s.split(d)\<close> for a one-character separator: the pieces between the separators, so the
  empty string gives one empty piece.
\<close>

fun split :: "char \<Rightarrow> string \<Rightarrow> string list" where
  "split d [] = [[]]"
| "split d (c # cs) =
     (if c = d then [] # split d cs
      else (case split d cs of [] \<Rightarrow> [[c]] | p # ps \<Rightarrow> (c # p) # ps))"

definition fence :: string where
  "fence = [CHR 0x60, CHR 0x60, CHR 0x60]"

text \<open>
  \<open>text.replace(/^```tsv\s*\n?/, '')\<close>: at the start of the text only, the marker and
  all white space after it (the greedy \<open>\s*\<close> takes every line feed too, so \<open>\n?\<close>
  is left nothing).
\<close>

definition removeOpeningFence :: "string \<Rightarrow> string" where
  "removeOpeningFence s =
     (if startsWith s (fence @ ''tsv'')
      then dropWhile isWhiteSpace (drop (length (fence @ ''tsv'')) s)
      else s)"

text \<open>
  \<open>/\n?```\s*$/\<close> matched at the start of \<open>s\<close>: an optional line feed, the three
  backquotes, then white space only up to the end of the text.
\<close>

definition closingFenceHere :: "string \<Rightarrow> bool" where
  "closingFenceHere s =
     (let r = (case s of [] \<Rightarrow> [] | c # cs \<Rightarrow> if c = CHR 0x0A then cs else s)
      in startsWith r fence \<and> list_all isWhiteSpace (drop (length fence) r))"

text \<open>
  \<open>.replace(/\n?```\s*$/, '')\<close>: the leftmost position where the pattern matches; the
  match runs to the end of the text, so what is kept is the text before that position.
\<close>

fun removeClosingFence :: "string \<Rightarrow> string" where
  "removeClosingFence [] = []"
| "removeClosingFence (c # cs) =
     (if closingFenceHere (c # cs) then [] else c # removeClosingFence cs)"

definition cleanTsvOutput :: "string \<Rightarrow> string" where
  "cleanTsvOutput txt = trim (removeClosingFence (removeOpeningFence txt))"

record explanationRow =
  ex_text :: string
  ex_explanation :: string

record classificationRow =
  cl_text :: string
  cl_label :: string
  cl_explanation :: string

text \<open>
  The body of the loop over the lines of one cleaned response. A line of three or more
  tab-separated parts gives a row; \<open>parts[0]\<close>, \<open>parts[1]\<close>, \<open>parts[2]\<close> exist then.
\<close>

definition explanationOfLine :: "string \<Rightarrow> explanationRow option" where
  "explanationOfLine line =
     (if startsWith line ''text'' then None
      else if trim line \<noteq> [] then
        (case split (CHR 0x09) line of
           p0 # p1 # p2 # rest \<Rightarrow> Some \<lparr>ex_text = p0, ex_explanation = p2\<rparr>
         | _ \<Rightarrow> None)
      else None)"

definition classificationOfLine :: "string \<Rightarrow> classificationRow option" where
  "classificationOfLine line =
     (if startsWith line ''text'' then None
      else if trim line \<noteq> [] then
        (case split (CHR 0x09) line of
           p0 # p1 # p2 # rest \<Rightarrow> Some \<lparr>cl_text = p0, cl_label = p1, cl_explanation = p2\<rparr>
         | _ \<Rightarrow> None)
      else None)"

text \<open>The two nested loops that turn the raw responses into rows, in order.\<close>

definition parseResponses :: "(string \<Rightarrow> 'r option) \<Rightarrow> string list \<Rightarrow> 'r list" where
  "parseResponses ofLine allResults =
     concat (map (\<lambda>batchResult.
        List.map_filter ofLine (split (CHR 0x0A) (cleanTsvOutput batchResult))) allResults)"

section \<open>Batches (services/batch-processor.ts, the loop under "Create batches")\<close>

text \<open>
  The loop state is \<open>(batches, lineCount, batchIndex)\<close>, starting from \<open>([[]], 0, 0)\<close>.
  One step pushes the row onto \<open>batches[batchIndex]\<close> and opens a new empty batch when
  the count reaches the batch size.
\<close>

definition pushRow :: "nat \<Rightarrow> 'a list list \<times> nat \<times> nat \<Rightarrow> 'a \<Rightarrow> 'a list list \<times> nat \<times> nat" where
  "pushRow batchSize st row =
     (case st of (batches, lineCount, batchIndex) \<Rightarrow>
        let batches' = batches[batchIndex := batches ! batchIndex @ [row]];
            lineCount' = lineCount + 1
        in if lineCount' = batchSize then (batches' @ [[]], 0, batchIndex + 1)
           else (batches', lineCount', batchIndex))"

definition createBatches :: "nat \<Rightarrow> 'a list \<Rightarrow> 'a list list" where
  "createBatches batchSize rows = fst (foldl (pushRow batchSize) ([[]], 0, 0) rows)"

section \<open>The checkpoint record (services/checkpoint.ts)\<close>

datatype action = Explain | Classify

record CheckpointData =
  processedBatches :: "nat list"
  results :: "nat \<rightharpoonup> string"
  target :: string
  language :: string
  action :: action
  totalBatches :: nat
  modelType :: string
  lastUpdated :: string

text \<open>
  The in-memory record together with every record handed to \<open>saveCheckpoint\<close> (each
  one is a whole-file write to the checkpoint path), oldest first.
\<close>

record checkpointState =
  current :: CheckpointData
  written :: "CheckpointData list"

definition saveCheckpoint :: "CheckpointData \<Rightarrow> CheckpointData list \<Rightarrow> CheckpointData list" where
  "saveCheckpoint data files = files @ [data]"

text \<open>\<open>now\<close> is the time stamp read by \<open>new Date().toISOString()\<close>.\<close>

definition saveBatchResult :: "string \<Rightarrow> nat \<Rightarrow> string \<Rightarrow> checkpointState \<Rightarrow> checkpointState" where
  "saveBatchResult now batchIndex result st =
     (let checkpoint = (current st)
            \<lparr>processedBatches := processedBatches (current st) @ [batchIndex],
             results := (results (current st))(batchIndex \<mapsto> result),
             lastUpdated := now\<rparr>
      in \<lparr>current = checkpoint, written = saveCheckpoint checkpoint (written st)\<rparr>)"

text \<open>
  \<open>loadCheckpoint\<close>. A path names nothing, something that exists but cannot be read
  (\<open>readFileSync\<close> throws), or a file with its text. \<open>JSON.parse\<close> is a parameter:
  \<open>None\<close> is its \<open>SyntaxError\<close>. The value returned is whatever was parsed (the
  \<open>as CheckpointData\<close> cast does nothing at run time); \<open>JNull\<close> is \<open>null\<close>. Both
  throwing calls are inside the \<open>try\<close>, so the function has no raising exit.
\<close>

datatype json =
  JNull | JBool bool | JNumber int | JString string | JArray "json list"
  | JObject "(string \<times> json) list"

datatype fileEntry = Unreadable | Content string

definition loadCheckpoint ::
  "(string \<Rightarrow> json option) \<Rightarrow> (string \<rightharpoonup> fileEntry) \<Rightarrow> string \<Rightarrow> json" where
  "loadCheckpoint parseJSON fs checkpointPath =
     (case fs checkpointPath of
        None \<Rightarrow> JNull
      | Some Unreadable \<Rightarrow> JNull
      | Some (Content data) \<Rightarrow>
          (case parseJSON data of None \<Rightarrow> JNull | Some v \<Rightarrow> v))"

section \<open>The batch orchestrators (services/batch-processor.ts)\<close>

text \<open>
  What lies outside the program during one run: how the \<open>k\<close>-th invocation of
  \<open>generateText\<close> for the batch of a given index settles, the order in which the
  in-flight calls settle (smaller settles first), and the time stamps read. A rejected
  call carries an error object: the \<open>catch\<close> block of the orchestrators logs
  \<open>error.message || error\<close> and the run is followed for such values.
\<close>

record world =
  generateText :: "nat \<Rightarrow> nat \<Rightarrow> callResult"
  settlesAt :: "nat \<Rightarrow> nat"
  timeAtStart :: string
  timeAtSave :: "nat \<Rightarrow> string"

text \<open>
  "Initialize or validate checkpoint": \<open>loaded\<close> is what \<open>loadCheckpoint\<close> gave for the
  run's checkpoint path, read as a record. A missing one is created and saved; an
  existing one is taken as it is.
\<close>

definition initialCheckpoint ::
  "CheckpointData option \<Rightarrow> string \<Rightarrow> string \<Rightarrow> string \<Rightarrow> action \<Rightarrow> nat \<Rightarrow> string
     \<Rightarrow> checkpointState" where
  "initialCheckpoint loaded mt tgt lang act n now =
     (case loaded of
        None \<Rightarrow>
          let checkpoint =
            \<lparr>processedBatches = [], results = Map.empty, target = tgt, language = lang,
             action = act, totalBatches = n, modelType = mt, lastUpdated = now\<rparr>
          in \<lparr>current = checkpoint, written = saveCheckpoint checkpoint []\<rparr>
      | Some checkpoint \<Rightarrow> \<lparr>current = checkpoint, written = []\<rparr>)"

text \<open>
  The callbacks of \<open>batches.map\<close> all run up to their first \<open>await\<close> before any call
  settles, so every skip test reads the checkpoint as it was initialised. These are the
  indices that are not skipped: for each, \<open>generateText\<close> is invoked once.
\<close>

definition dispatched :: "CheckpointData \<Rightarrow> nat \<Rightarrow> nat list" where
  "dispatched checkpoint n =
     filter (\<lambda>index. index \<notin> set (processedBatches checkpoint)) [0..<n]"

text \<open>
  The rest of one callback, run when its call settles: a resolved call saves the batch,
  a rejected one is caught and leaves the checkpoint alone.
\<close>

definition settle :: "world \<Rightarrow> checkpointState \<Rightarrow> nat \<Rightarrow> checkpointState" where
  "settle w st index =
     (case generateText w index 1 of
        Resolved txt \<Rightarrow> saveBatchResult (timeAtSave w index) index txt st
      | Rejected error \<Rightarrow> st)"

text \<open>"Collect all results": the stored text of each index in turn, when it is truthy.\<close>

definition collectResults :: "CheckpointData \<Rightarrow> nat \<Rightarrow> string list" where
  "collectResults checkpoint n =
     List.map_filter
       (\<lambda>i. case results checkpoint i of
               None \<Rightarrow> None
             | Some result \<Rightarrow> if result \<noteq> [] then Some result else None)
       [0..<n]"

record 'r runOutcome =
  calls :: "nat list"
  checkpointAfter :: CheckpointData
  filesWritten :: "CheckpointData list"
  failedBatches :: nat
  rawResults :: "string list"
  parsed :: "'r list"

text \<open>
  The body shared by \<open>explainStanceLabels\<close> and \<open>classifyAndExplainStance\<close>, which
  differ in the action, the shape of a row and the fields kept from a parsed line.
  \<open>calls\<close> lists the batch indices \<open>generateText\<close> was invoked for.
\<close>

definition processBatches ::
  "world \<Rightarrow> CheckpointData option \<Rightarrow> action \<Rightarrow> (string \<Rightarrow> 'r option) \<Rightarrow> string \<Rightarrow> string
     \<Rightarrow> string \<Rightarrow> 'a list \<Rightarrow> 'r runOutcome" where
  "processBatches w loaded act ofLine mt tgt lang dataRows =
     (let batches = createBatches BATCH_SIZE dataRows;
          st0 = initialCheckpoint loaded mt tgt lang act (length batches) (timeAtStart w);
          inFlight = dispatched (current st0) (length batches);
          st = foldl (settle w) st0 (sort_key (settlesAt w) inFlight);
          allResults = collectResults (current st) (length batches)
      in \<lparr>calls = inFlight,
          checkpointAfter = current st,
          filesWritten = written st,
          failedBatches =
            length (filter (\<lambda>i. case generateText w i 1 of Resolved _ \<Rightarrow> False
                                   | Rejected _ \<Rightarrow> True) inFlight),
          rawResults = allResults,
          parsed = parseResponses ofLine allResults\<rparr>)"

record labelledRow =
  row_text :: string
  row_label :: string

definition explainStanceLabels ::
  "world \<Rightarrow> CheckpointData option \<Rightarrow> string \<Rightarrow> string \<Rightarrow> labelledRow list \<Rightarrow> string
     \<Rightarrow> explanationRow runOutcome" where
  "explainStanceLabels w loaded mt tgt dataRows lang =
     processBatches w loaded Explain explanationOfLine mt tgt lang dataRows"

definition classifyAndExplainStance ::
  "world \<Rightarrow> CheckpointData option \<Rightarrow> string \<Rightarrow> string \<Rightarrow> string list \<Rightarrow> string
     \<Rightarrow> classificationRow runOutcome" where
  "classifyAndExplainStance w loaded mt tgt texts lang =
     processBatches w loaded Classify classificationOfLine mt tgt lang texts"

section \<open>Accuracy and agreement (compare.ts)\<close>

text \<open>
  A plain object or a \<open>Map\<close> keyed by strings is an association list of its own
  entries in insertion order: \<^const>\<open>AList.update\<close> overwrites a key in place or
  appends it, as assignment to a property and \<open>Map.set\<close> do. (An object lists keys that
  are array indices first; no result here depends on the order.) A number computed by
  division is an exact rational.
\<close>

record DataRow =
  dr_text :: string
  dr_humanLabel :: string
  dr_humanExplanation :: "string option"
  dr_llmLabel :: string
  dr_llmExplanation :: "string option"

record labelStat =
  st_total :: nat
  st_correct :: nat
  st_accuracy :: rat
  st_precision :: rat
  st_recall :: rat
  st_f1Score :: rat

definition newStat :: labelStat where
  "newStat = \<lparr>st_total = 0, st_correct = 0, st_accuracy = 0, st_precision = 0,
     st_recall = 0, st_f1Score = 0\<rparr>"

text \<open>
  \<open>labelStats\<close> and \<open>confusionMatrix\<close> are plain objects indexed by labels, and so is
  each row of the matrix. Reading \<open>object[key]\<close> finds an own property or else one
  inherited from \<open>Object.prototype\<close>, which has the properties below; each of them holds
  a function or an object, which is truthy. Writing through such a key to a property of
  the value found changes that built-in object, not \<open>labelStats\<close> or
  \<open>confusionMatrix\<close>: the model keeps the own properties of the two objects and does not
  follow the built-in ones.
\<close>

definition inheritedKeys :: "string list" where
  "inheritedKeys =
     [''constructor'', ''__defineGetter__'', ''__defineSetter__'', ''hasOwnProperty'',
      ''__lookupGetter__'', ''__lookupSetter__'', ''isPrototypeOf'', ''propertyIsEnumerable'',
      ''toString'', ''valueOf'', ''__proto__'', ''toLocaleString'']"

definition inherited :: "string \<Rightarrow> bool" where
  "inherited key = (key \<in> set inheritedKeys)"

text \<open>A count in a row of the matrix is a number or \<open>NaN\<close>.\<close>

datatype jsCount = NotANumber | Count nat

text \<open>
  \<open>!row[l]\<close>: a count that is 0 or \<open>NaN\<close> is falsy, and so is a missing one unless the
  key is inherited.
\<close>

definition cellFalsy :: "(string \<times> jsCount) list \<Rightarrow> string \<Rightarrow> bool" where
  "cellFalsy r l =
     (case map_of r l of
        None \<Rightarrow> \<not> inherited l
      | Some NotANumber \<Rightarrow> True
      | Some (Count c) \<Rightarrow> c = 0)"

text \<open>
  \<open>row[l]++\<close>: a number grows by one. Anything else read (\<open>NaN\<close>, \<open>undefined\<close>, an
  inherited function) becomes \<open>NaN\<close>, which is assigned as an own property, except for
  \<open>__proto__\<close>, whose setter ignores a number.
\<close>

definition increment :: "string \<Rightarrow> (string \<times> jsCount) list \<Rightarrow> (string \<times> jsCount) list" where
  "increment l r =
     (case map_of r l of
        Some (Count c) \<Rightarrow> AList.update l (Count (c + 1)) r
      | Some NotANumber \<Rightarrow> r
      | None \<Rightarrow> if l = ''__proto__'' then r else AList.update l NotANumber r)"

text \<open>
  "Build confusion matrix": the body of the loop over the rows. The state is
  \<open>(totalCorrect, labelStats, confusionMatrix)\<close>. An entry is created when
  \<open>!labelStats[h]\<close>, that is when \<open>h\<close> is neither an own nor an inherited key; the
  updates that follow act on the own entry when there is one
  (\<^const>\<open>AList.map_entry\<close> leaves a list without the key as it is).
\<close>

definition countRow ::
  "nat \<times> (string \<times> labelStat) list \<times> (string \<times> (string \<times> jsCount) list) list \<Rightarrow> DataRow
     \<Rightarrow> nat \<times> (string \<times> labelStat) list \<times> (string \<times> (string \<times> jsCount) list) list" where
  "countRow acc row =
     (case acc of (totalCorrect, stats, matrix) \<Rightarrow>
        let h = dr_humanLabel row;
            l = dr_llmLabel row;
            stats1 = (if map_of stats h = None \<and> \<not> inherited h
                      then AList.update h newStat stats else stats);
            stats2 = AList.map_entry h (\<lambda>s. s\<lparr>st_total := st_total s + 1\<rparr>) stats1;
            matrix1 = (if map_of matrix h = None \<and> \<not> inherited h
                       then AList.update h [] matrix else matrix);
            matrix2 = AList.map_entry h
              (\<lambda>r. if cellFalsy r l then AList.update l (Count 0) r else r) matrix1;
            matrix3 = AList.map_entry h (increment l) matrix2
        in if h = l
           then (totalCorrect + 1,
                 AList.map_entry h (\<lambda>s. s\<lparr>st_correct := st_correct s + 1\<rparr>) stats2, matrix3)
           else (totalCorrect, stats2, matrix3))"

text \<open>
  The inner loop over the rows of the confusion matrix that adds up the false positives
  of a label. \<open>confusionMatrix[actualLabel][label]\<close> is skipped when it is 0, \<open>NaN\<close> or
  missing; for an inherited \<open>label\<close> that a row does not own it is a function, and
  \<open>+=\<close> turns the sum into a string for good (\<open>None\<close>).
\<close>

definition falsePositives ::
  "(string \<times> (string \<times> jsCount) list) list \<Rightarrow> string \<Rightarrow> nat option" where
  "falsePositives matrix label =
     foldl (\<lambda>fp (actualLabel, r).
              if actualLabel \<noteq> label
              then (case map_of r label of
                      None \<Rightarrow> if inherited label then None else fp
                    | Some NotANumber \<Rightarrow> fp
                    | Some (Count c) \<Rightarrow> if c \<noteq> 0 then map_option (\<lambda>n. n + c) fp else fp)
              else fp)
       (Some 0) matrix"

text \<open>
  The body of the loop over \<open>allLabels\<close>: the entry of the label is created when
  \<open>!labelStats[label]\<close>, then its four metrics are written; for an inherited label
  they are written on the built-in object and \<open>labelStats\<close> stays as it is. A sum that
  is a string compares false with 0.
\<close>

definition labelMetrics ::
  "(string \<times> (string \<times> jsCount) list) list \<Rightarrow> (string \<times> labelStat) list \<Rightarrow> string
     \<Rightarrow> (string \<times> labelStat) list" where
  "labelMetrics matrix stats label =
     (let stats1 = (if map_of stats label = None \<and> \<not> inherited label
                    then AList.update label newStat stats else stats)
      in case map_of stats1 label of
           None \<Rightarrow> stats1
         | Some s \<Rightarrow>
             let truePositives = st_correct s;
                 precision =
                   (case falsePositives matrix label of
                      None \<Rightarrow> 0
                    | Some fp \<Rightarrow>
                        if truePositives + fp > 0
                        then of_nat truePositives / of_nat (truePositives + fp) else 0);
                 recall =
                   (if st_total s > 0 then of_nat truePositives / of_nat (st_total s) else 0);
                 f1 =
                   (if precision + recall > 0
                    then 2 * (precision * recall) / (precision + recall) else 0)
             in AList.update label
                  (s\<lparr>st_accuracy :=
                       (if st_total s > 0
                        then of_nat (st_correct s) / of_nat (st_total s) * 100 else 0),
                     st_precision := precision, st_recall := recall, st_f1Score := f1\<rparr>)
                  stats1)"

text \<open>The elements of a list in order of first occurrence, as \<open>new Set(list)\<close> keeps
  them.\<close>

definition uniq :: "'a list \<Rightarrow> 'a list" where
  "uniq xs = rev (remdups (rev xs))"

record AccuracyStats =
  totalSamples :: nat
  correctPredictions :: nat
  accuracy :: rat
  f1Score :: rat
  labelStats :: "(string \<times> labelStat) list"
  confusionMatrix :: "(string \<times> (string \<times> jsCount) list) list"

definition calculateAccuracy :: "DataRow list \<Rightarrow> AccuracyStats" where
  "calculateAccuracy data =
     (case foldl countRow (0, [], []) data of (totalCorrect, stats, matrix) \<Rightarrow>
        let allLabels = uniq (map fst stats @ map dr_llmLabel data);
            stats' = foldl (labelMetrics matrix) stats allLabels;
            f1Scores = map (\<lambda>(label, s). st_f1Score s) stats';
            macroF1 =
              (if length f1Scores > 0 then sum_list f1Scores / of_nat (length f1Scores) else 0);
            overallAccuracy =
              (if length data > 0 then of_nat totalCorrect / of_nat (length data) * 100 else 0)
        in \<lparr>totalSamples = length data, correctPredictions = totalCorrect,
            accuracy = overallAccuracy, f1Score = macroF1, labelStats = stats',
            confusionMatrix = matrix\<rparr>)"

text \<open>
  \<open>compareModels\<close> from the point where both files have been read: \<open>model1Data\<close> and
  \<open>model2Data\<close> are what \<open>readProcessedFile\<close> returned. A value of the \<open>Map\<close>:
\<close>

record mapEntry =
  me_humanLabel :: string
  model1Label :: "string option"
  model1Explanation :: "string option"
  model2Label :: "string option"
  model2Explanation :: "string option"

record disagreement =
  dis_text :: string
  dis_humanLabel :: string
  dis_model1Label :: string
  dis_model2Label :: string
  dis_model1Explanation :: "string option"
  dis_model2Explanation :: "string option"

text \<open>An optional string in a condition: \<open>undefined\<close> and the empty string are falsy.\<close>

definition truthy :: "string option \<Rightarrow> bool" where
  "truthy v = (case v of None \<Rightarrow> False | Some x \<Rightarrow> x \<noteq> [])"

definition setModel1 :: "(string \<times> mapEntry) list \<Rightarrow> DataRow \<Rightarrow> (string \<times> mapEntry) list" where
  "setModel1 dataMap item =
     AList.update (dr_text item)
       \<lparr>me_humanLabel = dr_humanLabel item, model1Label = Some (dr_llmLabel item),
        model1Explanation = dr_llmExplanation item, model2Label = None,
        model2Explanation = None\<rparr>
       dataMap"

definition setModel2 :: "(string \<times> mapEntry) list \<Rightarrow> DataRow \<Rightarrow> (string \<times> mapEntry) list" where
  "setModel2 dataMap item =
     (case map_of dataMap (dr_text item) of
        None \<Rightarrow> dataMap
      | Some existing \<Rightarrow>
          AList.update (dr_text item)
            (existing\<lparr>model2Label := Some (dr_llmLabel item),
                      model2Explanation := dr_llmExplanation item\<rparr>)
            dataMap)"

text \<open>The body of \<open>dataMap.forEach\<close>; the state is \<open>(agreements, disagreements)\<close>.\<close>

definition tally ::
  "nat \<times> disagreement list \<Rightarrow> string \<times> mapEntry \<Rightarrow> nat \<times> disagreement list" where
  "tally acc entry =
     (case acc of (agreements, found) \<Rightarrow>
      case entry of (txt, v) \<Rightarrow>
        if truthy (model1Label v) \<and> truthy (model2Label v) then
          (case (model1Label v, model2Label v) of
             (Some l1, Some l2) \<Rightarrow>
               if l1 = l2 then (agreements + 1, found)
               else (agreements,
                     found @ [\<lparr>dis_text = txt, dis_humanLabel = me_humanLabel v,
                               dis_model1Label = l1, dis_model2Label = l2,
                               dis_model1Explanation = model1Explanation v,
                               dis_model2Explanation = model2Explanation v\<rparr>])
           | _ \<Rightarrow> acc)
        else acc)"

text \<open>\<open>agreementRate\<close> is \<open>None\<close> where the division gives \<open>NaN\<close> (0 by 0).\<close>

record ComparisonStats =
  agreementRate :: "rat option"
  disagreements :: "disagreement list"

definition compareModels :: "DataRow list \<Rightarrow> DataRow list \<Rightarrow> ComparisonStats" where
  "compareModels model1Data model2Data =
     (let dataMap = foldl setModel2 (foldl setModel1 [] model1Data) model2Data
      in case foldl tally (0, []) dataMap of (agreements, found) \<Rightarrow>
           \<lparr>agreementRate =
              (if length dataMap = 0 then None
               else Some (of_nat agreements / of_nat (length dataMap) * 100)),
            disagreements = take 10 found\<rparr>)"

section \<open>Merging results into the worksheet (services/excel.ts)\<close>
















section \<open>Notions used to state the properties\<close>

text \<open>
  The two halves of the checkpoint invariant: every processed index is below
  \<open>totalBatches\<close>, and every processed index has an entry in \<open>results\<close>.
\<close>

definition processedInRange :: "CheckpointData \<Rightarrow> bool" where
  "processedInRange c = list_all (\<lambda>i. i < totalBatches c) (processedBatches c)"

definition processedHaveResults :: "CheckpointData \<Rightarrow> bool" where
  "processedHaveResults c = list_all (\<lambda>i. results c i \<noteq> None) (processedBatches c)"

definition checkpointInvariant :: "CheckpointData \<Rightarrow> bool" where
  "checkpointInvariant c = (processedInRange c \<and> processedHaveResults c)"

text \<open>
  For the agreement rate: the label a result set gives a text (its last row for that
  text), whether two sets agree on a text, and the distinct texts of the first set that
  the second set has, or lacks.
\<close>

definition lastLabel :: "DataRow list \<Rightarrow> string \<Rightarrow> string option" where
  "lastLabel data t = map_of (rev (map (\<lambda>r. (dr_text r, dr_llmLabel r)) data)) t"

definition agreeOn :: "DataRow list \<Rightarrow> DataRow list \<Rightarrow> string \<Rightarrow> bool" where
  "agreeOn a b t =
     (case (lastLabel a t, lastLabel b t) of
        (Some l1, Some l2) \<Rightarrow> l1 \<noteq> [] \<and> l1 = l2
      | _ \<Rightarrow> False)"

definition jointTexts :: "DataRow list \<Rightarrow> DataRow list \<Rightarrow> string list" where
  "jointTexts a b = filter (\<lambda>t. t \<in> set (map dr_text b)) (remdups (map dr_text a))"

definition onlyFirst :: "DataRow list \<Rightarrow> DataRow list \<Rightarrow> string list" where
  "onlyFirst a b = filter (\<lambda>t. t \<notin> set (map dr_text b)) (remdups (map dr_text a))"







text \<open>
  For the parser: lines joined by line feeds (\<open>lines.join("\n")\<close>), a response that
  wraps a header line and further lines in a \<open>tsv\<close> fence, and the same lines without
  fence, header and blank lines.
\<close>

definition joinLines :: "string list \<Rightarrow> string" where
  "joinLines ls = (case ls of [] \<Rightarrow> [] | l # rest \<Rightarrow> l @ concat (map (\<lambda>x. CHR 0x0A # x) rest))"

definition fenced :: "string \<Rightarrow> string list \<Rightarrow> string" where
  "fenced h ls = fence @ ''tsv'' @ [CHR 0x0A] @ joinLines (h # ls) @ [CHR 0x0A] @ fence"

definition unwrapped :: "string list \<Rightarrow> string" where
  "unwrapped ls = joinLines (filter (\<lambda>l. trim l \<noteq> []) ls)"

text \<open>
  For the accuracy statistics: the count a confusion matrix holds for an actual and a
  predicted label (0 for an absent entry), and the quantities of the definition of
  precision, recall and F1 read off the rows themselves. \<open>metricsOf\<close> is the arithmetic
  that the second loop of \<open>calculateAccuracy\<close> performs on the three counts.
\<close>

definition rowCount :: "(string \<times> jsCount) list \<Rightarrow> string \<Rightarrow> nat" where
  "rowCount r p = (case map_of r p of None \<Rightarrow> 0 | Some NotANumber \<Rightarrow> 0 | Some (Count c) \<Rightarrow> c)"

definition matrixCount ::
  "(string \<times> (string \<times> jsCount) list) list \<Rightarrow> string \<Rightarrow> string \<Rightarrow> nat" where
  "matrixCount m a p = (case map_of m a of None \<Rightarrow> 0 | Some r \<Rightarrow> rowCount r p)"

definition totalActual :: "DataRow list \<Rightarrow> string \<Rightarrow> nat" where
  "totalActual data label = length (filter (\<lambda>r. dr_humanLabel r = label) data)"

definition truePositivesOf :: "DataRow list \<Rightarrow> string \<Rightarrow> nat" where
  "truePositivesOf data label =
     length (filter (\<lambda>r. dr_humanLabel r = label \<and> dr_llmLabel r = label) data)"

definition falsePositivesOf :: "DataRow list \<Rightarrow> string \<Rightarrow> nat" where
  "falsePositivesOf data label =
     length (filter (\<lambda>r. dr_humanLabel r \<noteq> label \<and> dr_llmLabel r = label) data)"

definition precisionOf :: "DataRow list \<Rightarrow> string \<Rightarrow> rat" where
  "precisionOf data label =
     (if truePositivesOf data label + falsePositivesOf data label = 0 then 0
      else of_nat (truePositivesOf data label)
           / of_nat (truePositivesOf data label + falsePositivesOf data label))"

definition recallOf :: "DataRow list \<Rightarrow> string \<Rightarrow> rat" where
  "recallOf data label =
     (if totalActual data label = 0 then 0
      else of_nat (truePositivesOf data label) / of_nat (totalActual data label))"

definition f1Of :: "DataRow list \<Rightarrow> string \<Rightarrow> rat" where
  "f1Of data label =
     (if precisionOf data label + recallOf data label = 0 then 0
      else 2 * precisionOf data label * recallOf data label
           / (precisionOf data label + recallOf data label))"

definition metricsOf :: "nat \<Rightarrow> nat \<Rightarrow> nat \<Rightarrow> rat \<times> rat \<times> rat" where
  "metricsOf truePositives fp actual =
     (let precision = (if truePositives + fp > 0
                       then of_nat truePositives / of_nat (truePositives + fp) else 0);
          recall = (if actual > 0 then of_nat truePositives / of_nat actual else 0);
          f1 = (if precision + recall > 0
                then 2 * (precision * recall) / (precision + recall) else 0)
      in (precision, recall, f1))"

text \<open>
  For the retry wrapper: a caught value the \<open>catch\<close> block reads without raising. It is
  not nullish, and it is marked as a timeout or its message is absent or a string.
\<close>

definition readable :: "caught \<Rightarrow> bool" where
  "readable error =
     (case error of
        Nullish \<Rightarrow> False
      | Caught e \<Rightarrow>
          isTimeout error
          \<or> (case caught_message e of
                Absent \<Rightarrow> True
              | StringProperty m \<Rightarrow> True
              | NumberProperty n \<Rightarrow> False
              | OtherProperty \<Rightarrow> False))"

section \<open>Example inputs\<close>

definition exampleRows :: "nat \<Rightarrow> labelledRow list" where
  "exampleRows n = replicate n \<lparr>row_text = ''tweet'', row_label = ''for''\<rparr>"

definition exampleResponse :: string where
  "exampleResponse = ''tweet'' @ [CHR 0x09] @ ''for'' @ [CHR 0x09] @ ''it praises the target''"

text \<open>A world in which every call resolves at once, and one in which the first call
  for a batch times out and any later one would resolve.\<close>

definition steadyWorld :: world where
  "steadyWorld =
     \<lparr>generateText = (\<lambda>i k. Resolved exampleResponse), settlesAt = (\<lambda>i. i),
      timeAtStart = ''2025-01-01T00:00:00.000Z'', timeAtSave = (\<lambda>i. ''2025-01-01T00:00:01.000Z'')\<rparr>"


text \<open>A world whose calls for batches other than the third would resolve with another
  text.\<close>

definition lateWorld :: world where
  "lateWorld =
     \<lparr>generateText = (\<lambda>i k. Resolved (if i = 2 then exampleResponse else ''never asked'')),
      settlesAt = (\<lambda>i. i),
      timeAtStart = ''2025-01-02T00:00:00.000Z'', timeAtSave = (\<lambda>i. ''2025-01-02T00:00:01.000Z'')\<rparr>"

text \<open>A checkpoint left by a run over two batches, both completed.\<close>

definition twoBatchCheckpoint :: "nat \<Rightarrow> CheckpointData" where
  "twoBatchCheckpoint n =
     \<lparr>processedBatches = [0, 1],
      results = [0 \<mapsto> exampleResponse, 1 \<mapsto> exampleResponse],
      target = ''lula'', language = ''portuguese'', action = Explain, totalBatches = n,
      modelType = ''gpt-5'', lastUpdated = ''2025-01-01T00:00:00.000Z''\<rparr>"

text \<open>\<open>JSON.parse\<close> on the texts the examples use: \<open>{}\<close> is the empty object, \<open>null\<close>
  is \<open>null\<close>, and the third text used is not JSON.\<close>

definition sampleParse :: "string \<Rightarrow> json option" where
  "sampleParse s =
     (if s = ''{}'' then Some (JObject []) else if s = ''null'' then Some JNull else None)"

text \<open>Two result sets over the same ten texts that agree on seven of them.\<close>

definition mkRow :: "string \<Rightarrow> string \<Rightarrow> string \<Rightarrow> DataRow" where
  "mkRow t h l =
     \<lparr>dr_text = t, dr_humanLabel = h, dr_humanExplanation = None, dr_llmLabel = l,
      dr_llmExplanation = None\<rparr>"

definition tenTexts :: "string list" where
  "tenTexts = [''t0'', ''t1'', ''t2'', ''t3'', ''t4'', ''t5'', ''t6'', ''t7'', ''t8'', ''t9'']"

definition firstModel :: "DataRow list" where
  "firstModel = map (\<lambda>t. mkRow t ''for'' ''for'') tenTexts"

definition secondModel :: "DataRow list" where
  "secondModel =
     map (\<lambda>t. mkRow t ''for'' ''for'') (take 7 tenTexts)
     @ map (\<lambda>t. mkRow t ''for'' ''against'') (drop 7 tenTexts)"


text \<open>A row for a text that only the first result set has.\<close>

definition extraRow :: DataRow where
  "extraRow = mkRow ''only in the first set'' ''for'' ''for''"




text \<open>The header line and the row of the parser example.\<close>

definition headerLine :: string where
  "headerLine = ''text'' @ [CHR 0x09] @ ''label'' @ [CHR 0x09] @ ''explanation''"

definition helloLine :: string where
  "helloLine = ''hello'' @ [CHR 0x09] @ ''for'' @ [CHR 0x09] @ ''explains X''"

text \<open>Four rows with the label pairs (A,A), (A,B), (B,B), (B,B).\<close>

definition abRows :: "DataRow list" where
  "abRows = [mkRow ''t1'' ''A'' ''A'', mkRow ''t2'' ''A'' ''B'',
             mkRow ''t3'' ''B'' ''B'', mkRow ''t4'' ''B'' ''B'']"


text \<open>Rows whose actual label names a property every object inherits.\<close>

definition ctorRows :: "DataRow list" where
  "ctorRows = [mkRow ''t1'' ''constructor'' ''constructor'']"

definition shadowedRows :: "DataRow list" where
  "shadowedRows = [mkRow ''t1'' ''constructor'' ''A'', mkRow ''t2'' ''A'' ''A'']"

section \<open>Properties of the retry wrapper\<close>



lemma retryable_readable: "isRetryable error = Inr True \<Longrightarrow> readable error"
  by (cases error)
     (auto simp: readable_def isRetryable_def isTimeout_def messageIncludes_def
           split: jsProperty.splits sum.splits bool.splits if_splits)







section \<open>Properties of the batch splitter\<close>

text \<open>
  After \<open>n\<close> rows the loop state holds the \<open>n div b + 1\<close> slices of \<open>b\<close> consecutive
  rows (the last one the remainder, empty when \<open>b\<close> divides \<open>n\<close>), the count
  \<open>n mod b\<close> and the index \<open>n div b\<close>; so \<open>batches[batchIndex]\<close> always exists.
\<close>

lemma chunk_before:
  assumes "i < length xs div b"
  shows "take b (drop (i * b) (xs @ [x])) = take b (drop (i * b) xs)"
proof -
  have "(i + 1) * b \<le> (length xs div b) * b" using assms by (intro mult_le_mono1) simp
  also have "\<dots> \<le> length xs" by simp
  finally have "i * b + b \<le> length xs" by simp
  then show ?thesis by simp
qed

lemma chunk_last:
  assumes "0 < b"
  shows "take b (drop (length xs div b * b) (xs @ [x])) = drop (length xs div b * b) xs @ [x]"
proof -
  have "length xs - length xs div b * b = length xs mod b"
    by (simp add: minus_div_mult_eq_mod)
  moreover have "length xs mod b < b" using assms by simp
  moreover have "length xs div b * b \<le> length xs" by simp
  ultimately show ?thesis by simp
qed

lemma foldl_pushRow:
  assumes "0 < b"
  shows "foldl (pushRow b) ([[]], 0, 0) xs =
     (map (\<lambda>i. take b (drop (i * b) xs)) [0..<length xs div b + 1],
      length xs mod b, length xs div b)"
proof (induction xs rule: rev_induct)
  case Nil
  show ?case by simp
next
  case (snoc x xs)
  let ?n = "length xs" let ?q = "length xs div b" let ?r = "length xs mod b"
  let ?f = "\<lambda>ys i. take b (drop (i * b) ys)"
  have lastb: "map (?f xs) [0..<?q + 1] ! ?q = drop (?q * b) xs"
  proof -
    have "length xs - ?q * b < b" using assms by (simp add: minus_div_mult_eq_mod)
    then show ?thesis by (simp add: nth_append)
  qed
  have upd: "(map (?f xs) [0..<?q + 1])[?q := drop (?q * b) xs @ [x]]
      = map (?f (xs @ [x])) [0..<?q + 1]"
  proof (rule nth_equalityI)
    show "length ((map (?f xs) [0..<?q + 1])[?q := drop (?q * b) xs @ [x]]) =
      length (map (?f (xs @ [x])) [0..<?q + 1])" by simp
  next
    fix i assume "i < length ((map (?f xs) [0..<?q + 1])[?q := drop (?q * b) xs @ [x]])"
    then have i: "i < ?q + 1" by simp
    show "(map (?f xs) [0..<?q + 1])[?q := drop (?q * b) xs @ [x]] ! i =
      map (?f (xs @ [x])) [0..<?q + 1] ! i"
    proof (cases "i = ?q")
      case True
      then show ?thesis using chunk_last [OF assms, of xs x]
        by (simp add: nth_append del: upt_Suc take_append drop_append)
    next
      case False
      then have "i < ?q" using i by simp
      then show ?thesis using chunk_before [of i xs b x] i
        by (simp add: nth_append del: upt_Suc take_append drop_append)
    qed
  qed
  have step: "foldl (pushRow b) ([[]], 0, 0) (xs @ [x]) =
      (if ?r + 1 = b then (map (?f (xs @ [x])) [0..<?q + 1] @ [[]], 0, ?q + 1)
       else (map (?f (xs @ [x])) [0..<?q + 1], ?r + 1, ?q))"
    by (simp only: foldl_append foldl.simps snoc pushRow_def Let_def prod.case lastb upd)
  show ?case
  proof (cases "?r + 1 = b")
    case True
    then have d: "(?n + 1) div b = ?q + 1" and m: "(?n + 1) mod b = 0"
      using assms by (simp_all add: mod_Suc div_Suc)
    have e: "?f (xs @ [x]) (?q + 1) = []"
    proof -
      have "b dvd (?n + 1)" using m by (simp only: dvd_eq_mod_eq_0)
      then have "(?n + 1) div b * b = ?n + 1" by (rule dvd_div_mult_self)
      then have "length (xs @ [x]) = (?q + 1) * b" by (simp only: d length_append_singleton Suc_eq_plus1)
      then show ?thesis by (simp only: drop_all order_refl take.simps)
    qed
    have "map (?f (xs @ [x])) [0..<?q + 1 + 1] = map (?f (xs @ [x])) [0..<?q + 1] @ [[]]"
      using e by (simp del: take_append drop_append)
    then show ?thesis
      using True d m by (simp only: step if_True simp_thms length_append_singleton Suc_eq_plus1)
  next
    case False
    then have d: "(?n + 1) div b = ?q" and m: "(?n + 1) mod b = ?r + 1"
      using assms by (simp_all add: mod_Suc div_Suc)
    show ?thesis
      using False d m by (simp only: step if_False simp_thms length_append_singleton Suc_eq_plus1)
  qed
qed

lemma createBatches_eq:
  "0 < b \<Longrightarrow> createBatches b xs = map (\<lambda>i. take b (drop (i * b) xs)) [0..<length xs div b + 1]"
  by (simp add: createBatches_def foldl_pushRow del: upt_Suc)

lemma length_createBatches:
  "0 < b \<Longrightarrow> length (createBatches b xs) = length xs div b + 1"
  by (simp add: createBatches_eq del: upt_Suc)

section \<open>Properties of the orchestrator\<close>

lemma settle_results:
  "results (current (settle w st i)) j =
     (case generateText w i 1 of
        Resolved t \<Rightarrow> if j = i then Some t else results (current st) j
      | Rejected e \<Rightarrow> results (current st) j)"
  by (simp add: settle_def saveBatchResult_def Let_def split: callResult.splits)


lemma settle_totalBatches:
  "totalBatches (current (settle w st i)) = totalBatches (current st)"
  by (simp add: settle_def saveBatchResult_def Let_def split: callResult.splits)

lemma foldl_settle_totalBatches:
  "totalBatches (current (foldl (settle w) st ks)) = totalBatches (current st)"
  by (induction ks arbitrary: st) (simp_all add: settle_totalBatches)

lemma foldl_settle_results_other:
  "i \<notin> set ks \<Longrightarrow> results (current (foldl (settle w) st ks)) i = results (current st) i"
  by (induction ks arbitrary: st) (auto simp: settle_results split: callResult.splits)


lemma foldl_settle_results_resolved:
  "generateText w i 1 = Resolved t \<Longrightarrow> i \<in> set ks \<Longrightarrow>
     results (current (foldl (settle w) st ks)) i = Some t"
proof (induction ks arbitrary: st)
  case Nil
  then show ?case by simp
next
  case (Cons k ks)
  show ?case
  proof (cases "i \<in> set ks")
    case True
    then show ?thesis using Cons by simp
  next
    case False
    then have "i = k" using Cons.prems by simp
    then show ?thesis
      using False Cons.prems(1) by (simp add: foldl_settle_results_other settle_results)
  qed
qed



lemma saveBatchResult_fields:
  "processedBatches (current (saveBatchResult now i r st)) = processedBatches (current st) @ [i]"
  "results (current (saveBatchResult now i r st)) = (results (current st))(i \<mapsto> r)"
  "totalBatches (current (saveBatchResult now i r st)) = totalBatches (current st)"
  "written (saveBatchResult now i r st) = written st @ [current (saveBatchResult now i r st)]"
  by (simp_all add: saveBatchResult_def Let_def saveCheckpoint_def)

lemma saveBatchResult_haveResults:
  "processedHaveResults (current st) \<Longrightarrow> processedHaveResults (current (saveBatchResult now i r st))"
  by (auto simp: processedHaveResults_def saveBatchResult_fields list_all_iff)

lemma saveBatchResult_inRange:
  "processedInRange (current st) \<Longrightarrow> i < totalBatches (current st) \<Longrightarrow>
     processedInRange (current (saveBatchResult now i r st))"
  by (auto simp: processedInRange_def saveBatchResult_fields list_all_iff)

lemma saveBatchResult_invariant:
  assumes "checkpointInvariant (current st)" and "i < totalBatches (current st)"
  shows "checkpointInvariant (current (saveBatchResult now i r st))"
  using assms
  by (simp add: checkpointInvariant_def saveBatchResult_haveResults saveBatchResult_inRange)

lemma settle_written:
  assumes "checkpointInvariant (current st)" and "list_all checkpointInvariant (written st)"
    and "i < totalBatches (current st)"
  shows "checkpointInvariant (current (settle w st i)) \<and>
         list_all checkpointInvariant (written (settle w st i))"
proof (cases "generateText w i 1")
  case (Resolved t)
  have "checkpointInvariant (current (saveBatchResult (timeAtSave w i) i t st))"
    using assms(1,3) by (rule saveBatchResult_invariant)
  then show ?thesis using Resolved assms(2)
    by (simp add: settle_def saveBatchResult_fields(4))
next
  case (Rejected e)
  then show ?thesis using assms by (simp add: settle_def)
qed

lemma foldl_settle_written:
  assumes "checkpointInvariant (current st)" and "list_all checkpointInvariant (written st)"
    and "\<forall>k \<in> set ks. k < totalBatches (current st)"
  shows "checkpointInvariant (current (foldl (settle w) st ks)) \<and>
         list_all checkpointInvariant (written (foldl (settle w) st ks))"
  using assms
proof (induction ks arbitrary: st)
  case Nil
  then show ?case by simp
next
  case (Cons k ks)
  have "checkpointInvariant (current (settle w st k)) \<and>
        list_all checkpointInvariant (written (settle w st k))"
    using Cons.prems by (intro settle_written) simp_all
  moreover have "\<forall>j \<in> set ks. j < totalBatches (current (settle w st k))"
    using Cons.prems(3) by (simp add: settle_totalBatches)
  ultimately show ?case using Cons.IH [of "settle w st k"] by simp
qed

lemma BATCH_SIZE_pos: "0 < BATCH_SIZE" by (simp add: BATCH_SIZE_def)

lemma map_filter_cong_set:
  "(\<And>x. x \<in> set xs \<Longrightarrow> f x = g x) \<Longrightarrow> List.map_filter f xs = List.map_filter g xs"
  by (induction xs) (auto simp: map_filter_simps split: option.splits)

lemma collectResults_cong:
  "(\<And>i. i < n \<Longrightarrow> results c i = results c' i) \<Longrightarrow> collectResults c n = collectResults c' n"
  unfolding collectResults_def by (rule map_filter_cong_set) simp

lemma upt_three: "[0..<3] = [0, 1, 2]" by code_simp


lemma set_dispatched: "set (dispatched c n) = {i. i < n \<and> i \<notin> set (processedBatches c)}"
  by (auto simp: dispatched_def)

lemma current_initial_None:
  "current (initialCheckpoint None mt tgt lang act n now) =
     \<lparr>processedBatches = [], results = Map.empty, target = tgt, language = lang,
      action = act, totalBatches = n, modelType = mt, lastUpdated = now\<rparr>"
  by (simp add: initialCheckpoint_def Let_def)

lemma current_initial_Some: "current (initialCheckpoint (Some c) mt tgt lang act n now) = c"
  by (simp add: initialCheckpoint_def)












text \<open>
  C3. For an input of three batches and a checkpoint that records batches 0 and 1 as
  processed with their stored responses, the run invokes \<open>generateText\<close> once, for
  batch 2. Its aggregated raw results are the two stored texts followed by the new one
  (those that are not empty), whatever the calls for batches 0 and 1 would have given,
  and its parsed rows are the rows of these texts. Both equal those of a run that
  starts without a checkpoint and in which all three calls resolve with the same
  responses.
\<close>

theorem idempotent_resume:
  assumes three: "length (createBatches BATCH_SIZE dataRows) = 3"
    and processed: "set (processedBatches cp) = {0, 1}"
    and stored: "results cp 0 = Some (r 0) \<and> results cp 1 = Some (r 1)"
    and fresh: "\<forall>i<3. generateText w0 i 1 = Resolved (r i)"
    and again: "generateText w 2 1 = Resolved (r 2)"
  shows "calls (explainStanceLabels w (Some cp) mt tgt dataRows lang) = [2]
       \<and> failedBatches (explainStanceLabels w (Some cp) mt tgt dataRows lang) = 0
       \<and> calls (explainStanceLabels w0 None mt tgt dataRows lang) = [0, 1, 2]
       \<and> failedBatches (explainStanceLabels w0 None mt tgt dataRows lang) = 0
       \<and> rawResults (explainStanceLabels w (Some cp) mt tgt dataRows lang) =
           rawResults (explainStanceLabels w0 None mt tgt dataRows lang)
       \<and> parsed (explainStanceLabels w (Some cp) mt tgt dataRows lang) =
           parsed (explainStanceLabels w0 None mt tgt dataRows lang)
       \<and> rawResults (explainStanceLabels w (Some cp) mt tgt dataRows lang) =
           filter (\<lambda>text. text \<noteq> []) [r 0, r 1, r 2]
       \<and> parsed (explainStanceLabels w (Some cp) mt tgt dataRows lang) =
           parseResponses explanationOfLine (filter (\<lambda>text. text \<noteq> []) [r 0, r 1, r 2])
       \<and> (\<forall>i<3. results (checkpointAfter (explainStanceLabels w (Some cp) mt tgt dataRows lang)) i
                  = Some (r i))"
proof -
  let ?fresh = "current (initialCheckpoint None mt tgt lang Explain 3 (timeAtStart w0))"
  let ?resumed = "foldl (settle w) (initialCheckpoint (Some cp) mt tgt lang Explain 3 (timeAtStart w))
      (sort_key (settlesAt w) (dispatched cp 3))"
  let ?scratch = "foldl (settle w0) (initialCheckpoint None mt tgt lang Explain 3 (timeAtStart w0))
      (sort_key (settlesAt w0) (dispatched ?fresh 3))"
  have d: "dispatched cp 3 = [2]"
    using processed by (simp add: dispatched_def upt_three)
  have d0: "dispatched ?fresh 3 = [0, 1, 2]"
    by (simp add: dispatched_def upt_three current_initial_None)
  have res: "results (current ?resumed) i = Some (r i)" if "i < 3" for i
  proof (cases "i = 2")
    case True
    have "results (current ?resumed) 2 = Some (r 2)"
      by (rule foldl_settle_results_resolved [OF again]) (simp add: d)
    then show ?thesis using True by simp
  next
    case False
    then have "i = 0 \<or> i = 1" using that by auto
    then have "i \<notin> set (sort_key (settlesAt w) (dispatched cp 3))"
      by (auto simp: d)
    then have "results (current ?resumed) i =
        results (current (initialCheckpoint (Some cp) mt tgt lang Explain 3 (timeAtStart w))) i"
      by (rule foldl_settle_results_other)
    then show ?thesis using stored \<open>i = 0 \<or> i = 1\<close>
      by (auto simp: current_initial_Some)
  qed
  have res0: "results (current ?scratch) i = Some (r i)" if "i < 3" for i
  proof -
    have "i \<in> set (sort_key (settlesAt w0) (dispatched ?fresh 3))"
      using that d0 by auto
    moreover have "generateText w0 i 1 = Resolved (r i)" using fresh that by simp
    ultimately show ?thesis by (rule foldl_settle_results_resolved [rotated])
  qed
  have raw: "collectResults (current ?resumed) 3 = collectResults (current ?scratch) 3"
    by (rule collectResults_cong) (simp add: res res0)
  have texts: "collectResults (current ?resumed) 3 = filter (\<lambda>text. text \<noteq> []) [r 0, r 1, r 2]"
    using res [of 0] res [of 1] res [of 2]
    by (simp add: collectResults_def upt_three map_filter_simps)
  have f0: "filter (\<lambda>i. case generateText w0 i 1 of Resolved _ \<Rightarrow> False | Rejected _ \<Rightarrow> True)
      [0, 1, 2] = []"
    using fresh by (simp add: filter_empty_conv)
  have after: "checkpointAfter (explainStanceLabels w (Some cp) mt tgt dataRows lang)
      = current ?resumed"
    unfolding explainStanceLabels_def processBatches_def Let_def
    by (simp add: three current_initial_Some)
  have kept: "\<forall>i<3. results (checkpointAfter
      (explainStanceLabels w (Some cp) mt tgt dataRows lang)) i = Some (r i)"
    unfolding after using res by blast
  have main: "calls (explainStanceLabels w (Some cp) mt tgt dataRows lang) = [2]
       \<and> failedBatches (explainStanceLabels w (Some cp) mt tgt dataRows lang) = 0
       \<and> calls (explainStanceLabels w0 None mt tgt dataRows lang) = [0, 1, 2]
       \<and> failedBatches (explainStanceLabels w0 None mt tgt dataRows lang) = 0
       \<and> rawResults (explainStanceLabels w (Some cp) mt tgt dataRows lang) =
           rawResults (explainStanceLabels w0 None mt tgt dataRows lang)
       \<and> parsed (explainStanceLabels w (Some cp) mt tgt dataRows lang) =
           parsed (explainStanceLabels w0 None mt tgt dataRows lang)"
    unfolding explainStanceLabels_def processBatches_def Let_def
    using d d0 raw again f0 by (simp add: three current_initial_Some)
  have shown: "rawResults (explainStanceLabels w (Some cp) mt tgt dataRows lang) =
           filter (\<lambda>text. text \<noteq> []) [r 0, r 1, r 2]
       \<and> parsed (explainStanceLabels w (Some cp) mt tgt dataRows lang) =
           parseResponses explanationOfLine (filter (\<lambda>text. text \<noteq> []) [r 0, r 1, r 2])"
    unfolding explainStanceLabels_def processBatches_def Let_def
    using texts by (simp add: three current_initial_Some)
  show ?thesis using main shown kept by blast
qed

lemma createBatches_example:
  "length (createBatches BATCH_SIZE (exampleRows 250)) = 3"
  by (simp add: length_createBatches BATCH_SIZE_pos) (simp add: BATCH_SIZE_def exampleRows_def)

text \<open>
  C2. The loop opens a new batch as soon as the current one is full, so an input whose
  length is a multiple of the batch size ends with an empty batch: 100 rows give two
  batches, the second one empty, where \<open>ceil(100 / 100) = 1\<close>; no rows give one empty
  batch.
\<close>

theorem createBatches_full_batch:
  "createBatches BATCH_SIZE (exampleRows 100) = [exampleRows 100, []]
   \<and> nat \<lceil>real (length (exampleRows 100)) / real BATCH_SIZE\<rceil> = 1
   \<and> createBatches BATCH_SIZE (exampleRows 0) = [[]]"
proof -
  have "[0..<length (exampleRows 100) div BATCH_SIZE + 1] = [0, 1]"
    unfolding BATCH_SIZE_def exampleRows_def length_replicate by code_simp
  then have "createBatches BATCH_SIZE (exampleRows 100) = [exampleRows 100, []]"
    by (simp add: createBatches_eq BATCH_SIZE_pos) (simp add: BATCH_SIZE_def exampleRows_def)
  moreover have "createBatches BATCH_SIZE (exampleRows 0) = [[]]"
    by (simp add: createBatches_def exampleRows_def)
  ultimately show ?thesis by (simp add: BATCH_SIZE_def exampleRows_def)
qed

theorem idempotent_resume_witness:
  "length (createBatches BATCH_SIZE (exampleRows 250)) = 3
   \<and> checkpointInvariant (twoBatchCheckpoint 3)
   \<and> generateText lateWorld 0 1 = Resolved ''never asked''
   \<and> calls (explainStanceLabels lateWorld (Some (twoBatchCheckpoint 3)) ''gpt-5'' ''lula''
        (exampleRows 250) ''portuguese'') = [2]
   \<and> calls (explainStanceLabels steadyWorld None ''gpt-5'' ''lula''
        (exampleRows 250) ''portuguese'') = [0, 1, 2]
   \<and> rawResults (explainStanceLabels lateWorld (Some (twoBatchCheckpoint 3)) ''gpt-5'' ''lula''
        (exampleRows 250) ''portuguese'') = [exampleResponse, exampleResponse, exampleResponse]
   \<and> parsed (explainStanceLabels lateWorld (Some (twoBatchCheckpoint 3)) ''gpt-5'' ''lula''
        (exampleRows 250) ''portuguese'')
     = parsed (explainStanceLabels steadyWorld None ''gpt-5'' ''lula''
        (exampleRows 250) ''portuguese'')"
proof -
  have inv: "checkpointInvariant (twoBatchCheckpoint 3)"
    by (simp add: checkpointInvariant_def processedInRange_def processedHaveResults_def
        twoBatchCheckpoint_def)
  have ne: "exampleResponse \<noteq> []" by (simp add: exampleResponse_def)
  have never: "generateText lateWorld 0 1 = Resolved ''never asked''"
    by (simp add: lateWorld_def)
  have processed: "set (processedBatches (twoBatchCheckpoint 3)) = {0, 1}"
    by (simp add: twoBatchCheckpoint_def)
  have stored: "results (twoBatchCheckpoint 3) 0 = Some exampleResponse
      \<and> results (twoBatchCheckpoint 3) 1 = Some exampleResponse"
    by (simp add: twoBatchCheckpoint_def)
  have fresh: "\<forall>i<3. generateText steadyWorld i 1 = Resolved exampleResponse"
    by (simp add: steadyWorld_def)
  have again: "generateText lateWorld 2 1 = Resolved exampleResponse"
    by (simp add: lateWorld_def)
  note run = idempotent_resume [of "exampleRows 250" "twoBatchCheckpoint 3"
      "\<lambda>i. exampleResponse" steadyWorld lateWorld "''gpt-5''" "''lula''" "''portuguese''",
      OF createBatches_example processed stored fresh again]
  have raw: "rawResults (explainStanceLabels lateWorld (Some (twoBatchCheckpoint 3)) ''gpt-5''
        ''lula'' (exampleRows 250) ''portuguese'')
      = filter (\<lambda>text. text \<noteq> []) [exampleResponse, exampleResponse, exampleResponse]"
    using run by blast
  have rest: "calls (explainStanceLabels lateWorld (Some (twoBatchCheckpoint 3)) ''gpt-5'' ''lula''
        (exampleRows 250) ''portuguese'') = [2]
     \<and> calls (explainStanceLabels steadyWorld None ''gpt-5'' ''lula''
        (exampleRows 250) ''portuguese'') = [0, 1, 2]
     \<and> parsed (explainStanceLabels lateWorld (Some (twoBatchCheckpoint 3)) ''gpt-5'' ''lula''
        (exampleRows 250) ''portuguese'')
       = parsed (explainStanceLabels steadyWorld None ''gpt-5'' ''lula''
        (exampleRows 250) ''portuguese'')"
    using run by blast
  show ?thesis
    unfolding raw using inv ne never createBatches_example rest by simp
qed







lemma processBatches_written:
  assumes "case loaded of None \<Rightarrow> True
           | Some c \<Rightarrow> checkpointInvariant c \<and> length (createBatches BATCH_SIZE dataRows) \<le> totalBatches c"
  shows "list_all checkpointInvariant (filesWritten (processBatches w loaded act ofLine mt tgt lang dataRows))
       \<and> checkpointInvariant (checkpointAfter (processBatches w loaded act ofLine mt tgt lang dataRows))"
proof -
  let ?n = "length (createBatches BATCH_SIZE dataRows)"
  let ?st = "initialCheckpoint loaded mt tgt lang act ?n (timeAtStart w)"
  have c: "checkpointInvariant (current ?st)" and f: "list_all checkpointInvariant (written ?st)"
    and t: "?n \<le> totalBatches (current ?st)"
    using assms
    by (auto simp: initialCheckpoint_def Let_def saveCheckpoint_def checkpointInvariant_def
        processedInRange_def processedHaveResults_def split: option.splits)
  have "\<forall>k \<in> set (sort_key (settlesAt w) (dispatched (current ?st) ?n)). k < totalBatches (current ?st)"
    using t by (auto simp: set_dispatched)
  with c f have "checkpointInvariant (current (foldl (settle w) ?st
        (sort_key (settlesAt w) (dispatched (current ?st) ?n))))
    \<and> list_all checkpointInvariant (written (foldl (settle w) ?st
        (sort_key (settlesAt w) (dispatched (current ?st) ?n))))"
    by (rule foldl_settle_written)
  then show ?thesis
    unfolding processBatches_def Let_def by simp
qed

text \<open>
  C8, as amended. A created record satisfies the invariant. \<open>saveBatchResult\<close> removes
  nothing (processed indices and result entries only grow, \<open>totalBatches\<close> stays),
  keeps "every processed index has a result" always, and keeps "every processed index
  is below \<open>totalBatches\<close>" when the saved index is below \<open>totalBatches\<close>. Hence every
  record written by a run satisfies the invariant when the run created its checkpoint,
  or loaded one that satisfies the invariant and whose \<open>totalBatches\<close> is at least the
  number of batches of the input.
\<close>

theorem checkpoint_invariant_kept:
  "checkpointInvariant (current (initialCheckpoint None mt tgt lang act n now))
   \<and> list_all checkpointInvariant (written (initialCheckpoint None mt tgt lang act n now))
   \<and> set (processedBatches (current st))
        \<subseteq> set (processedBatches (current (saveBatchResult stamp i r st)))
   \<and> dom (results (current st)) \<subseteq> dom (results (current (saveBatchResult stamp i r st)))
   \<and> totalBatches (current (saveBatchResult stamp i r st)) = totalBatches (current st)
   \<and> (processedHaveResults (current st) \<longrightarrow>
        processedHaveResults (current (saveBatchResult stamp i r st)))
   \<and> (processedInRange (current st) \<and> i < totalBatches (current st) \<longrightarrow>
        processedInRange (current (saveBatchResult stamp i r st)))
   \<and> ((case loaded of None \<Rightarrow> True
        | Some c \<Rightarrow> checkpointInvariant c
            \<and> length (createBatches BATCH_SIZE dataRows) \<le> totalBatches c) \<longrightarrow>
        list_all checkpointInvariant
          (filesWritten (explainStanceLabels w loaded mt tgt dataRows lang))
        \<and> checkpointInvariant
          (checkpointAfter (explainStanceLabels w loaded mt tgt dataRows lang)))"
proof -
  have create: "checkpointInvariant (current (initialCheckpoint None mt tgt lang act n now))
      \<and> list_all checkpointInvariant (written (initialCheckpoint None mt tgt lang act n now))"
    by (simp add: initialCheckpoint_def Let_def saveCheckpoint_def checkpointInvariant_def
        processedInRange_def processedHaveResults_def)
  have grow: "set (processedBatches (current st))
        \<subseteq> set (processedBatches (current (saveBatchResult stamp i r st)))
      \<and> dom (results (current st)) \<subseteq> dom (results (current (saveBatchResult stamp i r st)))
      \<and> totalBatches (current (saveBatchResult stamp i r st)) = totalBatches (current st)"
    by (auto simp: saveBatchResult_fields)
  show ?thesis
    using create grow saveBatchResult_haveResults [of st stamp i r]
      saveBatchResult_inRange [of st i stamp r]
      processBatches_written [where loaded = loaded and dataRows = dataRows and w = w
        and act = Explain and ofLine = explanationOfLine and mt = mt and tgt = tgt
        and lang = lang]
    unfolding explainStanceLabels_def by blast
qed

theorem checkpoint_invariant_kept_witness:
  "checkpointInvariant (twoBatchCheckpoint 3)
   \<and> length (createBatches BATCH_SIZE (exampleRows 250)) \<le> totalBatches (twoBatchCheckpoint 3)
   \<and> list_all checkpointInvariant (filesWritten (explainStanceLabels steadyWorld
        (Some (twoBatchCheckpoint 3)) ''gpt-5'' ''lula'' (exampleRows 250) ''portuguese''))
   \<and> processedInRange (current (saveBatchResult ''2025-01-01T00:00:01.000Z'' 2 exampleResponse
        \<lparr>current = twoBatchCheckpoint 3, written = []\<rparr>))
   \<and> processedHaveResults (current (saveBatchResult ''2025-01-01T00:00:01.000Z'' 2 exampleResponse
        \<lparr>current = twoBatchCheckpoint 3, written = []\<rparr>))"
proof -
  have inv: "checkpointInvariant (twoBatchCheckpoint 3)"
    by (simp add: checkpointInvariant_def processedInRange_def processedHaveResults_def
        twoBatchCheckpoint_def)
  have tb: "totalBatches (twoBatchCheckpoint 3) = 3"
    by (simp add: twoBatchCheckpoint_def)
  show ?thesis
    using inv createBatches_example tb
      checkpoint_invariant_kept [where st = "\<lparr>current = twoBatchCheckpoint 3, written = []\<rparr>"
        and stamp = "''2025-01-01T00:00:01.000Z''" and i = 2 and r = exampleResponse
        and loaded = "Some (twoBatchCheckpoint 3)" and dataRows = "exampleRows 250"
        and w = steadyWorld and mt = "''gpt-5''" and tgt = "''lula''"
        and lang = "''portuguese''"]
    by (simp add: checkpointInvariant_def)
qed

text \<open>
  C8 as stated fails: a loaded checkpoint is not compared with the input. With a valid
  checkpoint of an earlier run over two batches and an input of three batches, the run
  saves index 2 in a record whose \<open>totalBatches\<close> is still 2.
\<close>

theorem stale_checkpoint_breaks_invariant:
  "checkpointInvariant (twoBatchCheckpoint 2)
   \<and> length (createBatches BATCH_SIZE (exampleRows 250)) = 3
   \<and> calls (explainStanceLabels steadyWorld (Some (twoBatchCheckpoint 2)) ''gpt-5'' ''lula''
        (exampleRows 250) ''portuguese'') = [2]
   \<and> map processedBatches (filesWritten (explainStanceLabels steadyWorld
        (Some (twoBatchCheckpoint 2)) ''gpt-5'' ''lula'' (exampleRows 250) ''portuguese''))
      = [[0, 1, 2]]
   \<and> map totalBatches (filesWritten (explainStanceLabels steadyWorld
        (Some (twoBatchCheckpoint 2)) ''gpt-5'' ''lula'' (exampleRows 250) ''portuguese''))
      = [2]
   \<and> \<not> list_all checkpointInvariant (filesWritten (explainStanceLabels steadyWorld
        (Some (twoBatchCheckpoint 2)) ''gpt-5'' ''lula'' (exampleRows 250) ''portuguese''))"
proof -
  have inv: "checkpointInvariant (twoBatchCheckpoint 2)"
    by (simp add: checkpointInvariant_def processedInRange_def processedHaveResults_def
        twoBatchCheckpoint_def)
  have d: "dispatched (twoBatchCheckpoint 2) 3 = [2]"
    by (simp add: dispatched_def upt_three twoBatchCheckpoint_def)
  have w: "filesWritten (explainStanceLabels steadyWorld (Some (twoBatchCheckpoint 2))
      ''gpt-5'' ''lula'' (exampleRows 250) ''portuguese'')
    = [current (saveBatchResult (timeAtSave steadyWorld 2) 2 exampleResponse
        \<lparr>current = twoBatchCheckpoint 2, written = []\<rparr>)]"
    by (simp add: explainStanceLabels_def processBatches_def Let_def createBatches_example
        initialCheckpoint_def d settle_def steadyWorld_def saveBatchResult_fields)
  have c: "calls (explainStanceLabels steadyWorld (Some (twoBatchCheckpoint 2)) ''gpt-5'' ''lula''
        (exampleRows 250) ''portuguese'') = [2]"
    by (simp add: explainStanceLabels_def processBatches_def Let_def createBatches_example
        initialCheckpoint_def d)
  show ?thesis
    unfolding w c
    using inv createBatches_example
    by (simp add: saveBatchResult_fields checkpointInvariant_def processedInRange_def
        twoBatchCheckpoint_def)
qed

section \<open>Properties of the checkpoint store\<close>

text \<open>
  C9, as amended. \<open>loadCheckpoint\<close> has no raising exit. It returns \<open>null\<close> when the path
  names nothing, when the file cannot be read, and when its text does not parse; a text
  that parses is returned as parsed, whatever its shape.
\<close>

theorem loadCheckpoint_soft:
  "(fs p = None \<longrightarrow> loadCheckpoint parseJSON fs p = JNull)
   \<and> (fs p = Some Unreadable \<longrightarrow> loadCheckpoint parseJSON fs p = JNull)
   \<and> (\<forall>d. fs p = Some (Content d) \<and> parseJSON d = None \<longrightarrow> loadCheckpoint parseJSON fs p = JNull)
   \<and> (\<forall>d v. fs p = Some (Content d) \<and> parseJSON d = Some v \<longrightarrow> loadCheckpoint parseJSON fs p = v)"
  by (simp add: loadCheckpoint_def)

theorem loadCheckpoint_soft_witness:
  "loadCheckpoint sampleParse Map.empty ''checkpoint.json'' = JNull
   \<and> loadCheckpoint sampleParse [''checkpoint.json'' \<mapsto> Unreadable] ''checkpoint.json'' = JNull
   \<and> loadCheckpoint sampleParse [''checkpoint.json'' \<mapsto> Content ''{not json'']
        ''checkpoint.json'' = JNull
   \<and> loadCheckpoint sampleParse [''checkpoint.json'' \<mapsto> Content ''null'']
        ''checkpoint.json'' = JNull"
  using loadCheckpoint_soft [of Map.empty "''checkpoint.json''" sampleParse]
    loadCheckpoint_soft [of "[''checkpoint.json'' \<mapsto> Unreadable]" "''checkpoint.json''" sampleParse]
    loadCheckpoint_soft [of "[''checkpoint.json'' \<mapsto> Content ''{not json'']"
      "''checkpoint.json''" sampleParse]
    loadCheckpoint_soft [of "[''checkpoint.json'' \<mapsto> Content ''null'']"
      "''checkpoint.json''" sampleParse]
  by (simp add: sampleParse_def)

text \<open>
  C9 as stated fails: the text \<open>{}\<close> parses, has none of the fields of a checkpoint
  record, and is returned as the checkpoint.
\<close>

theorem loadCheckpoint_unvalidated:
  "loadCheckpoint sampleParse [''checkpoint.json'' \<mapsto> Content ''{}''] ''checkpoint.json''
     = JObject []
   \<and> loadCheckpoint sampleParse [''checkpoint.json'' \<mapsto> Content ''{}''] ''checkpoint.json''
     \<noteq> JNull"
  by (simp add: loadCheckpoint_def sampleParse_def)

section \<open>Properties of the agreement rate\<close>

lemma lastLabel_Nil: "lastLabel [] t = None"
  by (simp add: lastLabel_def)

lemma lastLabel_snoc:
  "lastLabel (xs @ [r]) t = (if dr_text r = t then Some (dr_llmLabel r) else lastLabel xs t)"
  by (simp add: lastLabel_def)

lemma lastLabel_None_iff: "lastLabel xs t = None \<longleftrightarrow> t \<notin> set (map dr_text xs)"
  by (induction xs rule: rev_induct) (auto simp: lastLabel_snoc lastLabel_Nil)

lemma setModel1_keys:
  "map fst (setModel1 m r) =
     (if dr_text r \<in> set (map fst m) then map fst m else map fst m @ [dr_text r])"
  by (simp add: setModel1_def update_keys)

lemma setModel1_labels:
  "map_option (\<lambda>e. (model1Label e, model2Label e)) (map_of (setModel1 m r) t) =
     (if t = dr_text r then Some (Some (dr_llmLabel r), None)
      else map_option (\<lambda>e. (model1Label e, model2Label e)) (map_of m t))"
  by (simp add: setModel1_def update_conv')

lemma setModel2_keys: "map fst (setModel2 m r) = map fst m"
proof (cases "map_of m (dr_text r)")
  case None
  then show ?thesis by (simp add: setModel2_def)
next
  case (Some e)
  then have "dr_text r \<in> set (map fst m)"
    by (metis map_of_eq_None_iff option.distinct(1) set_map)
  then show ?thesis using Some by (simp add: setModel2_def update_keys)
qed

lemma setModel2_labels:
  "map_option (\<lambda>e. (model1Label e, model2Label e)) (map_of (setModel2 m r) t) =
     (if t = dr_text r
      then map_option (\<lambda>e. (model1Label e, Some (dr_llmLabel r))) (map_of m t)
      else map_option (\<lambda>e. (model1Label e, model2Label e)) (map_of m t))"
  by (cases "map_of m (dr_text r)") (auto simp: setModel2_def update_conv')

lemma setModel1_fold:
  "distinct (map fst (foldl setModel1 [] a))
   \<and> set (map fst (foldl setModel1 [] a)) = set (map dr_text a)
   \<and> (\<forall>t. map_option (\<lambda>e. (model1Label e, model2Label e)) (map_of (foldl setModel1 [] a) t)
          = map_option (\<lambda>l. (Some l, None)) (lastLabel a t))"
proof (induction a rule: rev_induct)
  case Nil
  show ?case by (simp add: lastLabel_Nil)
next
  case (snoc r a)
  then show ?case
    by (auto simp: setModel1_keys setModel1_labels lastLabel_snoc simp del: set_map)
qed

lemma setModel2_fold:
  assumes "\<forall>t. map_option (\<lambda>e. (model1Label e, model2Label e)) (map_of m t)
          = map_option (\<lambda>l. (Some l, None)) (lastLabel a t)"
  shows "map fst (foldl setModel2 m b) = map fst m
   \<and> (\<forall>t. map_option (\<lambda>e. (model1Label e, model2Label e)) (map_of (foldl setModel2 m b) t)
          = map_option (\<lambda>l. (Some l, lastLabel b t)) (lastLabel a t))"
proof (induction b rule: rev_induct)
  case Nil
  show ?case using assms by (simp add: lastLabel_Nil)
next
  case (snoc r b)
  let ?m = "foldl setModel2 m b"
  have keys: "map fst (setModel2 ?m r) = map fst m"
    using snoc by (simp add: setModel2_keys)
  have look: "map_option (\<lambda>e. (model1Label e, model2Label e)) (map_of (setModel2 ?m r) t)
        = map_option (\<lambda>l. (Some l, lastLabel (b @ [r]) t)) (lastLabel a t)" for t
  proof -
    have ih: "map_option (\<lambda>e. (model1Label e, model2Label e)) (map_of ?m t)
        = map_option (\<lambda>l. (Some l, lastLabel b t)) (lastLabel a t)"
      using snoc by simp
    show ?thesis
    proof (cases "t = dr_text r")
      case True
      show ?thesis
        using ih True
        by (cases "map_of ?m t"; cases "lastLabel a t") (auto simp: setModel2_labels lastLabel_snoc)
    next
      case False
      then show ?thesis using ih by (auto simp: setModel2_labels lastLabel_snoc)
    qed
  qed
  show ?case using keys look by simp
qed

lemma tally_step:
  "fst (tally (n, ds) kv) =
     n + (if truthy (model1Label (snd kv)) \<and> truthy (model2Label (snd kv))
             \<and> model1Label (snd kv) = model2Label (snd kv) then 1 else 0)"
  by (cases kv)
     (auto simp: tally_def truthy_def split: option.splits)

lemma tally_fold:
  "fst (foldl tally (n, ds) m) =
     n + length (filter (\<lambda>kv. truthy (model1Label (snd kv)) \<and> truthy (model2Label (snd kv))
             \<and> model1Label (snd kv) = model2Label (snd kv)) m)"
proof (induction m arbitrary: n ds)
  case Nil
  show ?case by simp
next
  case (Cons kv m)
  obtain n' ds' where t: "tally (n, ds) kv = (n', ds')" by (cases "tally (n, ds) kv")
  have "n' = n + (if truthy (model1Label (snd kv)) \<and> truthy (model2Label (snd kv))
             \<and> model1Label (snd kv) = model2Label (snd kv) then 1 else 0)"
    using tally_step [of n ds kv] t by simp
  then show ?case using Cons [of n' ds'] t by simp
qed

lemma agree_with_keys:
  assumes d: "distinct (map fst m)"
    and l: "\<forall>t. map_option (\<lambda>e. (model1Label e, model2Label e)) (map_of m t)
          = map_option (\<lambda>l. (Some l, lastLabel b t)) (lastLabel a t)"
  shows "length (filter (\<lambda>kv. truthy (model1Label (snd kv)) \<and> truthy (model2Label (snd kv))
             \<and> model1Label (snd kv) = model2Label (snd kv)) m)
       = length (filter (agreeOn a b) (map fst m))"
proof -
  have "(truthy (model1Label (snd kv)) \<and> truthy (model2Label (snd kv))
           \<and> model1Label (snd kv) = model2Label (snd kv)) = agreeOn a b (fst kv)"
    if "kv \<in> set m" for kv
  proof -
    have "map_of m (fst kv) = Some (snd kv)" using d that by simp
    moreover have "map_option (\<lambda>e. (model1Label e, model2Label e)) (map_of m (fst kv))
        = map_option (\<lambda>l. (Some l, lastLabel b (fst kv))) (lastLabel a (fst kv))"
      using l by blast
    ultimately have eq: "map_option (\<lambda>l. (Some l, lastLabel b (fst kv))) (lastLabel a (fst kv))
        = Some (model1Label (snd kv), model2Label (snd kv))"
      by simp
    obtain l1 where a1: "lastLabel a (fst kv) = Some l1"
      and e1: "model1Label (snd kv) = Some l1"
      and e2: "model2Label (snd kv) = lastLabel b (fst kv)"
      using eq by (cases "lastLabel a (fst kv)") auto
    show ?thesis
      unfolding e1 e2 agreeOn_def a1
      by (cases "lastLabel b (fst kv)") (auto simp: truthy_def)
  qed
  then have "filter (\<lambda>kv. truthy (model1Label (snd kv)) \<and> truthy (model2Label (snd kv))
             \<and> model1Label (snd kv) = model2Label (snd kv)) m
      = filter (agreeOn a b \<circ> fst) m"
    by (intro filter_cong) auto
  then show ?thesis by (simp add: filter_map)
qed

lemma length_filter_same_set:
  assumes "distinct xs" and "distinct ys" and "set xs = set ys"
  shows "length (filter P xs) = length (filter P ys)"
  using assms by (simp add: distinct_length_filter)

lemma agreeOn_joint: "agreeOn a b t \<Longrightarrow> t \<in> set (map dr_text b)"
  using lastLabel_None_iff [of b t]
  by (auto simp: agreeOn_def split: option.splits)

lemma compareModels_rate:
  "agreementRate (compareModels a b) =
     (if a = [] then None
      else Some (of_nat (length (filter (agreeOn a b) (jointTexts a b)))
                 / of_nat (length (jointTexts a b) + length (onlyFirst a b)) * 100))"
proof -
  let ?m1 = "foldl setModel1 [] a"
  let ?m = "foldl setModel2 ?m1 b"
  have m1: "distinct (map fst ?m1)" "set (map fst ?m1) = set (map dr_text a)"
    and l1: "\<forall>t. map_option (\<lambda>e. (model1Label e, model2Label e)) (map_of ?m1 t)
          = map_option (\<lambda>l. (Some l, None)) (lastLabel a t)"
    using setModel1_fold [of a] by blast+
  have keys: "map fst ?m = map fst ?m1"
    and l2: "\<forall>t. map_option (\<lambda>e. (model1Label e, model2Label e)) (map_of ?m t)
          = map_option (\<lambda>l. (Some l, lastLabel b t)) (lastLabel a t)"
    using setModel2_fold [OF l1, of b] by blast+
  have d: "distinct (map fst ?m)" using keys m1(1) by simp
  have s: "set (map fst ?m) = set (remdups (map dr_text a))" using keys m1(2) by simp
  have len: "length ?m = length (jointTexts a b) + length (onlyFirst a b)"
  proof -
    have "length ?m = length (map fst ?m)" by simp
    also have "\<dots> = length (remdups (map dr_text a))"
      using d s by (metis distinct_card distinct_remdups)
    also have "\<dots> = length (jointTexts a b) + length (onlyFirst a b)"
      unfolding jointTexts_def onlyFirst_def by (rule sum_length_filter_compl [symmetric])
    finally show ?thesis .
  qed
  have agr: "fst (foldl tally (0, []) ?m) = length (filter (agreeOn a b) (jointTexts a b))"
  proof -
    have "fst (foldl tally (0, []) ?m) = length (filter (agreeOn a b) (map fst ?m))"
      using agree_with_keys [OF d l2] by (simp add: tally_fold)
    also have "\<dots> = length (filter (agreeOn a b) (remdups (map dr_text a)))"
      using d s by (intro length_filter_same_set) simp_all
    also have "filter (agreeOn a b) (remdups (map dr_text a)) =
        filter (agreeOn a b) (jointTexts a b)"
      unfolding jointTexts_def filter_filter
      by (rule filter_cong) (auto dest: agreeOn_joint)
    finally show ?thesis .
  qed
  have empty: "length ?m = 0 \<longleftrightarrow> a = []"
  proof -
    have "length ?m = 0 \<longleftrightarrow> set (map fst ?m) = {}" by simp
    also have "\<dots> \<longleftrightarrow> a = []" using s by simp
    finally show ?thesis .
  qed
  obtain n ds where t: "foldl tally (0, []) ?m = (n, ds)" by (cases "foldl tally (0, []) ?m")
  then have n: "n = length (filter (agreeOn a b) (jointTexts a b))" using agr by simp
  show ?thesis
    unfolding compareModels_def Let_def t
    using empty len n by simp
qed

lemma ex_joint: "jointTexts firstModel secondModel = tenTexts"
  by code_simp

lemma ex_only: "onlyFirst firstModel secondModel = []"
  by code_simp

lemma ex_agree: "filter (agreeOn firstModel secondModel) tenTexts = take 7 tenTexts"
  by code_simp

text \<open>
  C1, as amended. \<open>agreementRate\<close> is 100 times the number of texts on which the two
  sets agree (both give the text the same non-empty label), divided by the number of
  distinct texts of the first set: those the second set has too, plus those only the
  first set has. Texts only the second set has are left out. With an empty first set
  the rate is \<open>NaN\<close>.
\<close>

theorem agreementRate_value:
  "agreementRate (compareModels a b) =
     (if a = [] then None
      else Some (of_nat (length (filter (agreeOn a b) (jointTexts a b)))
                 / of_nat (length (jointTexts a b) + length (onlyFirst a b)) * 100))"
  by (rule compareModels_rate)

text \<open>Two sets over the same ten texts that agree on seven: 70.\<close>

theorem agreementRate_value_witness:
  "length (jointTexts firstModel secondModel) = 10
   \<and> length (filter (agreeOn firstModel secondModel) (jointTexts firstModel secondModel)) = 7
   \<and> onlyFirst firstModel secondModel = []
   \<and> agreementRate (compareModels firstModel secondModel) = Some 70"
proof -
  have ne: "firstModel \<noteq> []" by (simp add: firstModel_def tenTexts_def)
  show ?thesis
    using agreementRate_value [of firstModel secondModel] ne
    by (simp add: ex_joint ex_only ex_agree) (simp add: tenTexts_def)
qed

lemma ex2_joint: "jointTexts (firstModel @ [extraRow]) secondModel = tenTexts"
  by code_simp

lemma ex2_only: "onlyFirst (firstModel @ [extraRow]) secondModel = [''only in the first set'']"
  by code_simp

lemma ex2_agree: "filter (agreeOn (firstModel @ [extraRow]) secondModel) tenTexts = take 7 tenTexts"
  by code_simp

text \<open>
  C1 as stated fails: with one more row in the first set, for a text the second set
  lacks, the two sets still agree on 7 of their 10 jointly-present texts, and the rate
  is 700/11, not 70.
\<close>

theorem agreementRate_counts_first_only:
  "length (jointTexts (firstModel @ [extraRow]) secondModel) = 10
   \<and> length (filter (agreeOn (firstModel @ [extraRow]) secondModel)
        (jointTexts (firstModel @ [extraRow]) secondModel)) = 7
   \<and> agreementRate (compareModels (firstModel @ [extraRow]) secondModel) = Some (700 / 11)
   \<and> agreementRate (compareModels (firstModel @ [extraRow]) secondModel) \<noteq> Some 70"
proof -
  have "agreementRate (compareModels (firstModel @ [extraRow]) secondModel) = Some (700 / 11)"
    by code_simp
  then show ?thesis
    by (simp add: ex2_joint ex2_agree) (simp add: tenTexts_def)
qed

section \<open>Properties of the worksheet merge\<close>


































section \<open>Properties of the response parser\<close>

lemma white_newline: "isWhiteSpace (CHR 0x0A)"
  by (simp add: isWhiteSpace_def)

lemma not_white_backquote: "\<not> isWhiteSpace (CHR 0x60)"
  by (simp add: isWhiteSpace_def)

lemma trimEnd_append_white: "list_all isWhiteSpace w \<Longrightarrow> trimEnd (s @ w) = trimEnd s"
  by (simp add: trimEnd_def list_all_iff dropWhile_append)

lemma trimEnd_append_nonwhite:
  assumes "x \<in> set b" and "\<not> isWhiteSpace x"
  shows "trimEnd (a @ b) = a @ trimEnd b"
proof -
  have "x \<in> set (rev b)" using assms(1) by simp
  then have "dropWhile isWhiteSpace (rev b @ rev a) = dropWhile isWhiteSpace (rev b) @ rev a"
    using assms(2) by (rule dropWhile_append1)
  then show ?thesis by (simp add: trimEnd_def)
qed

lemma set_trimEnd: "set (trimEnd s) \<subseteq> set s"
proof -
  have "set (dropWhile isWhiteSpace (rev s)) \<subseteq> set (rev s)" by (rule set_dropWhileD [THEN subsetI])
  then show ?thesis by (simp add: trimEnd_def)
qed

lemma trimEnd_Nil_iff: "trimEnd s = [] \<longleftrightarrow> list_all isWhiteSpace s"
  by (simp add: trimEnd_def list_all_iff)

lemma trim_Nil_iff: "trim s = [] \<longleftrightarrow> list_all isWhiteSpace s"
proof
  assume "trim s = []"
  then have all: "list_all isWhiteSpace (dropWhile isWhiteSpace s)"
    by (simp add: trim_def trimStart_def trimEnd_Nil_iff)
  have "dropWhile isWhiteSpace s = []"
  proof (cases "dropWhile isWhiteSpace s")
    case Nil
    then show ?thesis .
  next
    case (Cons c cs)
    then have "\<not> isWhiteSpace c" using hd_dropWhile [of isWhiteSpace s] by simp
    then show ?thesis using all Cons by simp
  qed
  then show "list_all isWhiteSpace s" by (simp add: list_all_iff)
next
  assume "list_all isWhiteSpace s"
  then have d: "dropWhile isWhiteSpace s = []" by (simp add: list_all_iff)
  show "trim s = []" unfolding trim_def trimStart_def trimEnd_def d by simp
qed

text \<open>Lines and line feeds.\<close>

lemma split_no_sep: "d \<notin> set l \<Longrightarrow> split d l = [l]"
  by (induction l) auto

lemma split_append_sep: "d \<notin> set l \<Longrightarrow> split d (l @ d # rest) = l # split d rest"
  by (induction l) auto

lemma joinLines_Cons2:
  "joinLines (l # l' # rest) = l @ CHR 0x0A # joinLines (l' # rest)"
  by (simp add: joinLines_def)

lemma joinLines_single: "joinLines [l] = l"
  by (simp add: joinLines_def)

lemma split_joinLines:
  "\<forall>x \<in> set (l # rest). CHR 0x0A \<notin> set x \<Longrightarrow> split (CHR 0x0A) (joinLines (l # rest)) = l # rest"
proof (induction rest arbitrary: l)
  case Nil
  then show ?case by (simp add: joinLines_single split_no_sep)
next
  case (Cons l' rest)
  then show ?case by (simp add: joinLines_Cons2 split_append_sep del: split.simps)
qed

lemma joinLines_snoc:
  "joinLines (p @ [l]) = concat (map (\<lambda>x. x @ [CHR 0x0A]) p) @ l"
proof (induction p)
  case Nil
  show ?case by (simp add: joinLines_single)
next
  case (Cons x p)
  then show ?case by (cases "p @ [l]") (simp_all add: joinLines_Cons2)
qed

lemma joinLines_append_snoc:
  "joinLines (p @ [l] @ b) = joinLines (p @ [l]) @ concat (map (\<lambda>x. CHR 0x0A # x) b)"
proof (induction p)
  case Nil
  show ?case by (simp add: joinLines_def)
next
  case (Cons x p)
  then show ?case
    by (cases "p @ [l]"; cases "p @ l # b") (auto simp: joinLines_Cons2)
qed

lemma split_joinLines_nonempty:
  assumes "L \<noteq> []" and "\<forall>x \<in> set L. CHR 0x0A \<notin> set x"
  shows "split (CHR 0x0A) (joinLines L) = L"
  using assms by (cases L) (simp_all add: split_joinLines del: split.simps)

lemma split_trim_lines:
  assumes L: "L = p @ [l] @ b"
    and nb: "trim l \<noteq> []"
    and blank: "\<forall>x \<in> set b. trim x = []"
    and nonl: "\<forall>x \<in> set L. CHR 0x0A \<notin> set x"
    and start: "trimStart (joinLines L) = joinLines L"
  shows "split (CHR 0x0A) (trim (joinLines L)) = p @ [trimEnd l]"
proof -
  let ?w = "concat (map (\<lambda>x. CHR 0x0A # x) b)"
  have w: "list_all isWhiteSpace ?w"
    using blank by (auto simp: list_all_iff trim_Nil_iff white_newline)
  obtain x where x: "x \<in> set l" "\<not> isWhiteSpace x"
    using nb by (auto simp: trim_Nil_iff list_all_iff)
  have "trim (joinLines L) = trimEnd (joinLines L)"
    by (simp add: trim_def start)
  also have "\<dots> = trimEnd (joinLines (p @ [l]) @ ?w)"
    by (simp only: L joinLines_append_snoc)
  also have "\<dots> = trimEnd (joinLines (p @ [l]))"
    using w by (rule trimEnd_append_white)
  also have "\<dots> = trimEnd (concat (map (\<lambda>x. x @ [CHR 0x0A]) p) @ l)"
    by (simp only: joinLines_snoc)
  also have "\<dots> = concat (map (\<lambda>x. x @ [CHR 0x0A]) p) @ trimEnd l"
    using x by (rule trimEnd_append_nonwhite)
  also have "\<dots> = joinLines (p @ [trimEnd l])"
    by (simp only: joinLines_snoc)
  finally have t: "trim (joinLines L) = joinLines (p @ [trimEnd l])" .
  have "\<forall>y \<in> set (p @ [trimEnd l]). CHR 0x0A \<notin> set y"
    using nonl set_trimEnd [of l] by (auto simp: L)
  then show ?thesis
    unfolding t by (intro split_joinLines_nonempty) simp_all
qed

text \<open>What the cleaning leaves of a fenced block.\<close>

lemma removeClosingFence_fenced: "removeClosingFence (x @ CHR 0x0A # fence) = x"
proof (induction x)
  case Nil
  show ?case by (simp add: closingFenceHere_def startsWith_def fence_def)
next
  case (Cons c cs)
  have "\<not> closingFenceHere (c # cs @ CHR 0x0A # fence)"
  proof
    assume m: "closingFenceHere (c # cs @ CHR 0x0A # fence)"
    define r where "r = (if c = CHR 0x0A then cs @ CHR 0x0A # fence else c # cs @ CHR 0x0A # fence)"
    have all: "list_all isWhiteSpace (drop (length fence) r)"
      using m by (simp add: closingFenceHere_def r_def Let_def)
    obtain y where r: "r = y @ CHR 0x0A # fence"
      by (cases "c = CHR 0x0A") (auto simp: r_def intro: that [of cs] that [of "c # cs"])
    have lf: "length fence = 3" by (simp add: fence_def)
    have d: "drop (length fence) r = drop 3 y @ drop (3 - length y) (CHR 0x0A # fence)"
      by (simp only: lf r drop_append)
    have short: "3 - length y < length (CHR 0x0A # fence)" by (simp add: lf)
    then have "last (drop (3 - length y) (CHR 0x0A # fence)) = last (CHR 0x0A # fence)"
      by (rule last_drop)
    moreover have "drop (3 - length y) (CHR 0x0A # fence) \<noteq> []" using short by simp
    moreover have "last (CHR 0x0A # fence) = CHR 0x60" by (simp add: fence_def)
    ultimately have "CHR 0x60 \<in> set (drop (3 - length y) (CHR 0x0A # fence))"
      by (metis last_in_set)
    then have "CHR 0x60 \<in> set (drop (length fence) r)" unfolding d by simp
    then show False using all not_white_backquote by (auto simp: list_all_iff)
  qed
  then show ?case using Cons by simp
qed

lemma removeOpeningFence_fenced:
  assumes "startsWith h ''text''"
  shows "removeOpeningFence (fenced h ls) = joinLines (h # ls) @ CHR 0x0A # fence"
proof -
  obtain h' where h: "h = ''text'' @ h'"
    using assms by (auto simp: startsWith_def prefix_def)
  have j: "joinLines (h # ls) = CHR ''t'' # ''ext'' @ h' @ concat (map (\<lambda>x. CHR 0x0A # x) ls)"
    by (simp add: joinLines_def h)
  have "\<not> isWhiteSpace (CHR ''t'')" by (simp add: isWhiteSpace_def)
  then show ?thesis
    unfolding removeOpeningFence_def fenced_def j
    by (simp add: startsWith_def fence_def white_newline)
qed

lemma cleanTsvOutput_fenced:
  assumes "startsWith h ''text''"
  shows "cleanTsvOutput (fenced h ls) = trim (joinLines (h # ls))"
  by (simp only: cleanTsvOutput_def removeOpeningFence_fenced [OF assms] removeClosingFence_fenced)

lemma map_filter_append:
  "List.map_filter f (xs @ ys) = List.map_filter f xs @ List.map_filter f ys"
  by (simp add: List.map_filter_def)

lemma map_filter_nonblank:
  "(\<And>l. trim l = [] \<Longrightarrow> f l = None) \<Longrightarrow>
     List.map_filter f (filter (\<lambda>l. trim l \<noteq> []) xs) = List.map_filter f xs"
  by (induction xs) (auto split: option.splits)

lemma parseResponses_single:
  "parseResponses ofLine [s] = List.map_filter ofLine (split (CHR 0x0A) (cleanTsvOutput s))"
  by (simp add: parseResponses_def)

lemma header_after_trimEnd:
  assumes "startsWith h ''text''"
  shows "startsWith (trimEnd h) ''text''"
proof -
  obtain h' where h: "h = ''text'' @ h'"
    using assms by (auto simp: startsWith_def prefix_def)
  have t: "trimEnd ''text'' = ''text''" by (simp add: trimEnd_def isWhiteSpace_def)
  show ?thesis
  proof (cases "list_all isWhiteSpace h'")
    case True
    then have "trimEnd h = ''text''" unfolding h by (simp only: trimEnd_append_white t)
    then show ?thesis by (simp add: startsWith_def)
  next
    case False
    then obtain x where "x \<in> set h'" "\<not> isWhiteSpace x" by (auto simp: list_all_iff)
    then have "trimEnd h = ''text'' @ trimEnd h'" unfolding h by (rule trimEnd_append_nonwhite)
    then show ?thesis by (simp add: startsWith_def)
  qed
qed

lemma fenced_parse:
  assumes blankNone: "\<And>l. trim l = [] \<Longrightarrow> ofLine l = None"
    and headerNone: "\<And>l. startsWith l ''text'' \<Longrightarrow> ofLine l = None"
    and lines: "\<forall>l \<in> set ls. CHR 0x0A \<notin> set l"
    and h: "startsWith h ''text''" "CHR 0x0A \<notin> set h"
    and u1: "trimStart (unwrapped ls) = unwrapped ls"
    and u2: "removeOpeningFence (unwrapped ls) = unwrapped ls"
    and u3: "removeClosingFence (unwrapped ls) = unwrapped ls"
  shows "parseResponses ofLine [fenced h ls] = parseResponses ofLine [unwrapped ls]"
proof -
  obtain h' where hh: "h = ''text'' @ h'"
    using h(1) by (auto simp: startsWith_def prefix_def)
  have hnb: "trim h \<noteq> []"
    by (auto simp: trim_Nil_iff hh list_all_iff isWhiteSpace_def)
  have start: "trimStart (joinLines (h # ls)) = joinLines (h # ls)"
    by (simp add: joinLines_def hh trimStart_def isWhiteSpace_def)
  have nonl: "\<forall>x \<in> set (h # ls). CHR 0x0A \<notin> set x" using lines h(2) by simp
  have cu: "cleanTsvOutput (unwrapped ls) = trim (unwrapped ls)"
    by (simp add: cleanTsvOutput_def u2 u3)
  show ?thesis
  proof (cases "\<exists>x \<in> set ls. trim x \<noteq> []")
    case True
    then obtain p l b where ls: "ls = p @ l # b" and l: "trim l \<noteq> []"
      and b: "\<forall>z \<in> set b. \<not> trim z \<noteq> []"
      by (rule split_list_last_propE)
    have b': "\<forall>z \<in> set b. trim z = []" using b by simp
    have "split (CHR 0x0A) (trim (joinLines (h # ls))) = (h # p) @ [trimEnd l]"
      using l b' nonl start by (intro split_trim_lines [where b = b]) (simp_all add: ls)
    then have left: "parseResponses ofLine [fenced h ls] =
        List.map_filter ofLine p @ List.map_filter ofLine [trimEnd l]"
      by (simp add: parseResponses_single cleanTsvOutput_fenced [OF h(1)] headerNone [OF h(1)]
          map_filter_append del: split.simps)
    have f: "filter (\<lambda>l. trim l \<noteq> []) ls = filter (\<lambda>l. trim l \<noteq> []) p @ [l] @ []"
      using l b' by (simp add: ls)
    have "split (CHR 0x0A) (trim (joinLines (filter (\<lambda>l. trim l \<noteq> []) ls))) =
        filter (\<lambda>l. trim l \<noteq> []) p @ [trimEnd l]"
    proof (rule split_trim_lines [OF f l])
      show "\<forall>x \<in> set []. trim x = []" by simp
      show "\<forall>x \<in> set (filter (\<lambda>l. trim l \<noteq> []) ls). CHR 0x0A \<notin> set x" using lines by simp
      show "trimStart (joinLines (filter (\<lambda>l. trim l \<noteq> []) ls)) =
          joinLines (filter (\<lambda>l. trim l \<noteq> []) ls)"
        using u1 by (simp add: unwrapped_def)
    qed
    then have right: "parseResponses ofLine [unwrapped ls] =
        List.map_filter ofLine p @ List.map_filter ofLine [trimEnd l]"
      using cu
      by (simp add: parseResponses_single unwrapped_def map_filter_append
          map_filter_nonblank [of ofLine, OF blankNone] del: split.simps)
    show ?thesis by (simp only: left right)
  next
    case False
    then have blank: "\<forall>x \<in> set ls. trim x = []" by simp
    have "split (CHR 0x0A) (trim (joinLines (h # ls))) = [] @ [trimEnd h]"
      using hnb blank nonl start by (intro split_trim_lines [where b = ls]) simp_all
    then have left: "parseResponses ofLine [fenced h ls] = []"
      by (simp add: parseResponses_single cleanTsvOutput_fenced [OF h(1)]
          headerNone [OF header_after_trimEnd [OF h(1)]] del: split.simps)
    have "filter (\<lambda>l. trim l \<noteq> []) ls = []" using blank by (simp add: filter_empty_conv)
    then have "unwrapped ls = []" by (simp add: unwrapped_def joinLines_def)
    moreover have "trim [] = []" by (simp add: trim_Nil_iff)
    ultimately have right: "parseResponses ofLine [unwrapped ls] = []"
      using cu blankNone [of "[]"] by (simp add: parseResponses_single)
    show ?thesis by (simp only: left right)
  qed
qed

text \<open>
  C7, as amended. Take response lines (none holding a line feed), blank ones among
  them, and a header line that starts with \<open>text\<close>. The fenced block made of the
  header and the lines parses to the same rows as the non-blank lines joined by line
  feeds, provided that joined text does not begin with white space and neither fence
  pattern of the cleaning matches it.
\<close>

theorem fenced_block_parses_like_plain:
  assumes "\<forall>l \<in> set ls. CHR 0x0A \<notin> set l"
    and "startsWith h ''text''" and "CHR 0x0A \<notin> set h"
    and "trimStart (unwrapped ls) = unwrapped ls"
    and "removeOpeningFence (unwrapped ls) = unwrapped ls"
    and "removeClosingFence (unwrapped ls) = unwrapped ls"
  shows "parseResponses classificationOfLine [fenced h ls]
           = parseResponses classificationOfLine [unwrapped ls]
       \<and> parseResponses explanationOfLine [fenced h ls]
           = parseResponses explanationOfLine [unwrapped ls]"
proof -
  have "parseResponses classificationOfLine [fenced h ls]
           = parseResponses classificationOfLine [unwrapped ls]"
    using assms by (intro fenced_parse) (simp_all add: classificationOfLine_def)
  moreover have "parseResponses explanationOfLine [fenced h ls]
           = parseResponses explanationOfLine [unwrapped ls]"
    using assms by (intro fenced_parse) (simp_all add: explanationOfLine_def)
  ultimately show ?thesis by simp
qed

text \<open>The fenced block with the header, the line \<open>hello\<close>, \<open>for\<close>, \<open>explains X\<close> and a
  blank line parses to that one row.\<close>

theorem fenced_block_parses_like_plain_witness:
  "parseResponses classificationOfLine [fenced headerLine [helloLine, []]]
     = [\<lparr>cl_text = ''hello'', cl_label = ''for'', cl_explanation = ''explains X''\<rparr>]
   \<and> parseResponses classificationOfLine [unwrapped [helloLine, []]]
     = [\<lparr>cl_text = ''hello'', cl_label = ''for'', cl_explanation = ''explains X''\<rparr>]
   \<and> parseResponses explanationOfLine [fenced headerLine [helloLine, []]]
     = [\<lparr>ex_text = ''hello'', ex_explanation = ''explains X''\<rparr>]"
proof -
  have a: "\<forall>l \<in> set [helloLine, []]. CHR 0x0A \<notin> set l" by (simp add: helloLine_def)
  have b: "startsWith headerLine ''text''" by (simp add: startsWith_def headerLine_def)
  have c: "CHR 0x0A \<notin> set headerLine" by (simp add: headerLine_def)
  have d: "trimStart (unwrapped [helloLine, []]) = unwrapped [helloLine, []]" by code_simp
  have e: "removeOpeningFence (unwrapped [helloLine, []]) = unwrapped [helloLine, []]"
    by code_simp
  have f: "removeClosingFence (unwrapped [helloLine, []]) = unwrapped [helloLine, []]"
    by code_simp
  have g: "parseResponses classificationOfLine [unwrapped [helloLine, []]]
     = [\<lparr>cl_text = ''hello'', cl_label = ''for'', cl_explanation = ''explains X''\<rparr>]"
    by code_simp
  have i: "parseResponses explanationOfLine [unwrapped [helloLine, []]]
     = [\<lparr>ex_text = ''hello'', ex_explanation = ''explains X''\<rparr>]"
    by code_simp
  show ?thesis
    using fenced_block_parses_like_plain [OF a b c d e f] g i by simp
qed

text \<open>
  C7 as stated fails: \<open>trim\<close> removes white space at the start of the text, which in
  the fenced block is in front of the header but in the plain text is in front of the
  first row. A first row that begins with a space keeps the space in its text when
  fenced and loses it when plain.
\<close>

theorem leading_space_differs:
  "parseResponses classificationOfLine [fenced headerLine [CHR 0x20 # helloLine]]
     = [\<lparr>cl_text = '' hello'', cl_label = ''for'', cl_explanation = ''explains X''\<rparr>]
   \<and> parseResponses classificationOfLine [unwrapped [CHR 0x20 # helloLine]]
     = [\<lparr>cl_text = ''hello'', cl_label = ''for'', cl_explanation = ''explains X''\<rparr>]
   \<and> parseResponses classificationOfLine [fenced headerLine [CHR 0x20 # helloLine]]
     \<noteq> parseResponses classificationOfLine [unwrapped [CHR 0x20 # helloLine]]"
proof -
  have a: "parseResponses classificationOfLine [fenced headerLine [CHR 0x20 # helloLine]]
     = [\<lparr>cl_text = '' hello'', cl_label = ''for'', cl_explanation = ''explains X''\<rparr>]"
    by code_simp
  have b: "parseResponses classificationOfLine [unwrapped [CHR 0x20 # helloLine]]
     = [\<lparr>cl_text = ''hello'', cl_label = ''for'', cl_explanation = ''explains X''\<rparr>]"
    by code_simp
  show ?thesis by (simp add: a b)
qed

section \<open>Properties of the accuracy statistics\<close>

lemma keys_map_entry: "map fst (AList.map_entry k f xs) = map fst xs"
  by (induction xs) auto

lemma ensure_keys:
  "map fst (if map_of xs k = None then AList.update k v xs else xs) =
     (if k \<in> set (map fst xs) then map fst xs else map fst xs @ [k])"
proof (cases "map_of xs k")
  case None
  then have "k \<notin> set (map fst xs)" by (simp add: map_of_eq_None_iff)
  then show ?thesis using None by (simp add: update_keys)
next
  case (Some y)
  then have "k \<in> set (map fst xs)"
    by (metis map_of_eq_None_iff option.distinct(1) set_map)
  then show ?thesis using Some by simp
qed

lemma ensure_lookup:
  "map_of (if map_of xs k = None then AList.update k v xs else xs) x =
     (if x = k then Some (case map_of xs k of None \<Rightarrow> v | Some y \<Rightarrow> y) else map_of xs x)"
  by (cases "map_of xs k") (simp_all add: update_conv')

text \<open>One step of the first loop, component by component.\<close>

lemma countRow_total:
  "fst (countRow (tc, stats, m) row) =
     tc + (if dr_humanLabel row = dr_llmLabel row then 1 else 0)"
  by (simp add: countRow_def Let_def)

lemma countRow_total_fold:
  "fst (foldl countRow (0, [], []) data)
     = length (filter (\<lambda>r. dr_humanLabel r = dr_llmLabel r) data)"
proof (induction data rule: rev_induct)
  case Nil
  show ?case by simp
next
  case (snoc row data)
  obtain tc s m where st: "foldl countRow (0, [], []) data = (tc, s, m)"
    by (cases "foldl countRow (0, [], []) data") auto
  show ?case using snoc by (simp add: st countRow_total)
qed

text \<open>A row whose actual label is inherited leaves the own entries as they are.\<close>

lemma map_entry_absent: "map_of xs k = None \<Longrightarrow> AList.map_entry k f xs = xs"
  by (induction xs) (auto split: if_splits)

lemma countRow_inherited:
  assumes "inherited (dr_humanLabel row)" and "map_of stats (dr_humanLabel row) = None"
    and "map_of m (dr_humanLabel row) = None"
  shows "snd (countRow (tc, stats, m) row) = (stats, m)"
  using assms
  by (cases "dr_humanLabel row = dr_llmLabel row")
     (simp_all add: countRow_def Let_def map_entry_absent)

lemma countRow_stats:
  assumes "\<not> inherited (dr_humanLabel row)"
  shows "fst (snd (countRow (tc, stats, m) row)) =
     (if dr_humanLabel row = dr_llmLabel row
      then AList.map_entry (dr_humanLabel row) (\<lambda>s. s\<lparr>st_correct := st_correct s + 1\<rparr>)
      else (\<lambda>x. x))
       (AList.map_entry (dr_humanLabel row) (\<lambda>s. s\<lparr>st_total := st_total s + 1\<rparr>)
         (if map_of stats (dr_humanLabel row) = None
          then AList.update (dr_humanLabel row) newStat stats else stats))"
  using assms
  by (cases "dr_humanLabel row = dr_llmLabel row") (simp_all add: countRow_def Let_def)

lemma countRow_matrix:
  assumes "\<not> inherited (dr_humanLabel row)"
  shows "snd (snd (countRow (tc, stats, m) row)) =
     AList.map_entry (dr_humanLabel row) (increment (dr_llmLabel row))
       (AList.map_entry (dr_humanLabel row)
         (\<lambda>r. if cellFalsy r (dr_llmLabel row)
              then AList.update (dr_llmLabel row) (Count 0) r else r)
         (if map_of m (dr_humanLabel row) = None
          then AList.update (dr_humanLabel row) [] m else m))"
  using assms
  by (cases "dr_humanLabel row = dr_llmLabel row") (simp_all add: countRow_def Let_def)

lemma countRow_stats_keys:
  assumes h: "\<not> inherited (dr_humanLabel row)"
  shows "map fst (fst (snd (countRow (tc, stats, m) row))) =
     (if dr_humanLabel row \<in> set (map fst stats) then map fst stats
      else map fst stats @ [dr_humanLabel row])"
proof -
  define s1 where "s1 = (if map_of stats (dr_humanLabel row) = None
          then AList.update (dr_humanLabel row) newStat stats else stats)"
  have k: "map fst s1 = (if dr_humanLabel row \<in> set (map fst stats) then map fst stats
      else map fst stats @ [dr_humanLabel row])"
    unfolding s1_def by (rule ensure_keys)
  have "map fst (fst (snd (countRow (tc, stats, m) row))) = map fst s1"
    unfolding countRow_stats [OF h] s1_def [symmetric]
    by (cases "dr_humanLabel row = dr_llmLabel row") (simp_all add: keys_map_entry)
  then show ?thesis by (simp only: k)
qed

lemma countRow_stats_lookup:
  assumes h: "\<not> inherited (dr_humanLabel row)"
  shows "map_of (fst (snd (countRow (tc, stats, m) row))) x =
     (if x = dr_humanLabel row
      then Some ((case map_of stats x of None \<Rightarrow> newStat | Some s \<Rightarrow> s)
             \<lparr>st_total := st_total (case map_of stats x of None \<Rightarrow> newStat | Some s \<Rightarrow> s) + 1,
              st_correct := st_correct (case map_of stats x of None \<Rightarrow> newStat | Some s \<Rightarrow> s)
                 + (if dr_humanLabel row = dr_llmLabel row then 1 else 0)\<rparr>)
      else map_of stats x)"
proof -
  define s1 where "s1 = (if map_of stats (dr_humanLabel row) = None
          then AList.update (dr_humanLabel row) newStat stats else stats)"
  have l: "map_of s1 k = (if k = dr_humanLabel row
      then Some (case map_of stats (dr_humanLabel row) of None \<Rightarrow> newStat | Some y \<Rightarrow> y)
      else map_of stats k)" for k
    unfolding s1_def by (rule ensure_lookup)
  show ?thesis
    unfolding countRow_stats [OF h] s1_def [symmetric]
    by (cases "dr_humanLabel row = dr_llmLabel row") (auto simp: map_of_map_entry l)
qed

lemma countRow_matrix_keys:
  assumes h: "\<not> inherited (dr_humanLabel row)"
  shows "map fst (snd (snd (countRow (tc, stats, m) row))) =
     (if dr_humanLabel row \<in> set (map fst m) then map fst m
      else map fst m @ [dr_humanLabel row])"
  unfolding countRow_matrix [OF h] by (simp only: keys_map_entry ensure_keys)

text \<open>The count of a label that is not inherited grows by one when it is the predicted
  label of the row, whatever the count was, and stays otherwise.\<close>

lemma rowCount_bump:
  assumes "\<not> inherited p"
  shows "rowCount (increment l (if cellFalsy r l then AList.update l (Count 0) r else r)) p =
     rowCount r p + (if p = l then 1 else 0)"
proof (cases "p = l")
  case True
  then have nl: "\<not> inherited l" using assms by simp
  show ?thesis
    using True nl
    by (auto simp: rowCount_def increment_def cellFalsy_def update_conv'
          split: option.splits jsCount.splits)
next
  case False
  have upd: "map_of (AList.update l v xs) p = map_of xs p" for v xs
    using False by (simp add: update_conv')
  have inc: "map_of (increment l xs) p = map_of xs p" for xs
    using False by (auto simp: increment_def update_conv' split: option.splits jsCount.splits)
  show ?thesis
    using False by (simp add: rowCount_def inc upd)
qed

lemma countRow_matrix_count:
  assumes h: "\<not> inherited (dr_humanLabel row)" and p: "\<not> inherited p"
  shows "matrixCount (snd (snd (countRow (tc, stats, m) row))) a p =
     matrixCount m a p + (if a = dr_humanLabel row \<and> p = dr_llmLabel row then 1 else 0)"
proof -
  define m1 where "m1 = (if map_of m (dr_humanLabel row) = None
          then AList.update (dr_humanLabel row) [] m else m)"
  define bump :: "(string \<times> jsCount) list \<Rightarrow> (string \<times> jsCount) list"
    where "bump = (\<lambda>r. increment (dr_llmLabel row)
      (if cellFalsy r (dr_llmLabel row) then AList.update (dr_llmLabel row) (Count 0) r else r))"
  define r0 where "r0 = (case map_of m (dr_humanLabel row) of None \<Rightarrow> [] | Some r \<Rightarrow> r)"
  have l1: "map_of m1 k = (if k = dr_humanLabel row then Some r0 else map_of m k)" for k
    unfolding m1_def r0_def by (rule ensure_lookup)
  have b: "rowCount (bump r) p = rowCount r p + (if p = dr_llmLabel row then 1 else 0)" for r
    unfolding bump_def using p by (rule rowCount_bump)
  have m3: "snd (snd (countRow (tc, stats, m) row)) =
      AList.map_entry (dr_humanLabel row) (increment (dr_llmLabel row))
        (AList.map_entry (dr_humanLabel row)
          (\<lambda>r. if cellFalsy r (dr_llmLabel row)
               then AList.update (dr_llmLabel row) (Count 0) r else r) m1)"
    unfolding m1_def using h by (rule countRow_matrix)
  have look: "map_of (snd (snd (countRow (tc, stats, m) row))) k =
      (if k = dr_humanLabel row then Some (bump r0) else map_of m k)" for k
    unfolding m3 by (simp add: map_of_map_entry l1 bump_def)
  have old: "rowCount r0 p = matrixCount m (dr_humanLabel row) p"
    by (simp add: matrixCount_def rowCount_def r0_def split: option.splits)
  show ?thesis
    by (cases "a = dr_humanLabel row") (simp_all add: matrixCount_def look b old [unfolded matrixCount_def])
qed

lemma no_actual:
  assumes "x \<notin> set (map dr_humanLabel data)"
  shows "totalActual data x = 0" and "truePositivesOf data x = 0"
  using assms by (auto simp: totalActual_def truePositivesOf_def filter_empty_conv)

lemma counts_snoc:
  "totalActual (data @ [row]) x = totalActual data x + (if dr_humanLabel row = x then 1 else 0)"
  "truePositivesOf (data @ [row]) x =
     truePositivesOf data x + (if dr_humanLabel row = x \<and> dr_llmLabel row = x then 1 else 0)"
  by (simp_all add: totalActual_def truePositivesOf_def)

text \<open>The state of the first loop after all rows, when no actual label is inherited.\<close>

lemma countRow_fold:
  assumes "\<forall>r \<in> set data. \<not> inherited (dr_humanLabel r)"
  shows "distinct (map fst (fst (snd (foldl countRow (0, [], []) data))))
   \<and> set (map fst (fst (snd (foldl countRow (0, [], []) data)))) = set (map dr_humanLabel data)
   \<and> (\<forall>x. (case map_of (fst (snd (foldl countRow (0, [], []) data))) x of
              None \<Rightarrow> newStat | Some s \<Rightarrow> s)
           = newStat\<lparr>st_total := totalActual data x, st_correct := truePositivesOf data x\<rparr>)
   \<and> distinct (map fst (snd (snd (foldl countRow (0, [], []) data))))
   \<and> set (map fst (snd (snd (foldl countRow (0, [], []) data)))) = set (map dr_humanLabel data)
   \<and> (\<forall>a p. \<not> inherited p \<longrightarrow> matrixCount (snd (snd (foldl countRow (0, [], []) data))) a p
           = length (filter (\<lambda>r. dr_humanLabel r = a \<and> dr_llmLabel r = p) data))"
  using assms
proof (induction data rule: rev_induct)
  case Nil
  show ?case
    by (simp add: matrixCount_def totalActual_def truePositivesOf_def newStat_def)
next
  case (snoc row data)
  obtain tc s m where st: "foldl countRow (0, [], []) data = (tc, s, m)"
    by (cases "foldl countRow (0, [], []) data") auto
  have h: "\<not> inherited (dr_humanLabel row)" using snoc.prems by simp
  have "\<forall>r \<in> set data. \<not> inherited (dr_humanLabel r)" using snoc.prems by simp
  then have ih: 
    "distinct (map fst s)" "set (map fst s) = set (map dr_humanLabel data)"
    "\<And>x. (case map_of s x of None \<Rightarrow> newStat | Some y \<Rightarrow> y)
           = newStat\<lparr>st_total := totalActual data x, st_correct := truePositivesOf data x\<rparr>"
    "distinct (map fst m)" "set (map fst m) = set (map dr_humanLabel data)"
    "\<And>a p. \<not> inherited p \<Longrightarrow> matrixCount m a p
           = length (filter (\<lambda>r. dr_humanLabel r = a \<and> dr_llmLabel r = p) data)"
    using snoc.IH by (simp_all add: st)
  have step: "foldl countRow (0, [], []) (data @ [row]) = countRow (tc, s, m) row"
    by (simp add: st)
  have b: "distinct (map fst (fst (snd (countRow (tc, s, m) row))))"
    "set (map fst (fst (snd (countRow (tc, s, m) row)))) = set (map dr_humanLabel (data @ [row]))"
    using ih(1,2) by (auto simp: countRow_stats_keys [OF h] simp del: set_map)
  have c: "(case map_of (fst (snd (countRow (tc, s, m) row))) x of
              None \<Rightarrow> newStat | Some y \<Rightarrow> y)
      = newStat\<lparr>st_total := totalActual (data @ [row]) x,
                 st_correct := truePositivesOf (data @ [row]) x\<rparr>" for x
  proof (cases "x = dr_humanLabel row")
    case True
    have "map_of (fst (snd (countRow (tc, s, m) row))) x =
        Some ((newStat\<lparr>st_total := totalActual data x, st_correct := truePositivesOf data x\<rparr>)
          \<lparr>st_total := totalActual data x + 1,
           st_correct := truePositivesOf data x
              + (if dr_humanLabel row = dr_llmLabel row then 1 else 0)\<rparr>)"
      using True by (simp add: countRow_stats_lookup [OF h] ih(3))
    then show ?thesis using True by (auto simp: counts_snoc)
  next
    case False
    then have "map_of (fst (snd (countRow (tc, s, m) row))) x = map_of s x"
      by (simp add: countRow_stats_lookup [OF h])
    then show ?thesis using False by (auto simp: counts_snoc ih(3))
  qed
  have d: "distinct (map fst (snd (snd (countRow (tc, s, m) row))))"
    "set (map fst (snd (snd (countRow (tc, s, m) row)))) = set (map dr_humanLabel (data @ [row]))"
    using ih(4,5) by (auto simp: countRow_matrix_keys [OF h] simp del: set_map)
  have e: "matrixCount (snd (snd (countRow (tc, s, m) row))) a p
      = length (filter (\<lambda>r. dr_humanLabel r = a \<and> dr_llmLabel r = p) (data @ [row]))"
    if "\<not> inherited p" for a p
    using that by (auto simp: countRow_matrix_count [OF h] ih(6))
  show ?case
    unfolding step using b c d e by blast
qed

lemma falsePositives_sum:
  assumes "\<not> inherited label"
  shows "falsePositives m label =
     Some (sum_list (map (\<lambda>(a, r). if a \<noteq> label then rowCount r label else 0) m))"
proof -
  have "foldl (\<lambda>fp (actualLabel, r).
              if actualLabel \<noteq> label
              then (case map_of r label of
                      None \<Rightarrow> if inherited label then None else fp
                    | Some NotANumber \<Rightarrow> fp
                    | Some (Count c) \<Rightarrow> if c \<noteq> 0 then map_option (\<lambda>n. n + c) fp else fp)
              else fp) (Some n) m
      = Some (n + sum_list (map (\<lambda>(a, r). if a \<noteq> label then rowCount r label else 0) m))"
    for n
    using assms
    by (induction m arbitrary: n) (auto simp: rowCount_def split: option.splits jsCount.splits)
  then show ?thesis by (simp add: falsePositives_def)
qed

lemma sum_by_matrix_key:
  assumes "distinct (map fst m)"
  shows "sum_list (map (\<lambda>(a, r). if a \<noteq> label then rowCount r label else 0) m) =
     sum_list (map (\<lambda>a. if a \<noteq> label then matrixCount m a label else 0) (map fst m))"
proof -
  have "(case kv of (a, r) \<Rightarrow> if a \<noteq> label then rowCount r label else 0)
      = (if fst kv \<noteq> label then matrixCount m (fst kv) label else 0)" if "kv \<in> set m" for kv
  proof -
    have "map_of m (fst kv) = Some (snd kv)" using assms that by simp
    then show ?thesis by (cases kv) (simp add: matrixCount_def)
  qed
  then have "sum_list (map (\<lambda>(a, r). if a \<noteq> label then rowCount r label else 0) m)
      = sum_list (map (\<lambda>kv. if fst kv \<noteq> label then matrixCount m (fst kv) label else 0) m)"
    by (intro arg_cong [where f = sum_list] map_cong refl) auto
  then show ?thesis by (simp add: comp_def)
qed

lemma sum_by_key:
  assumes "distinct ks" and "set (map h data) \<subseteq> set ks"
  shows "sum_list (map (\<lambda>a. length (filter (\<lambda>r. h r = a \<and> Q r) data)) ks)
       = length (filter Q data)"
  using assms(2)
proof (induction data)
  case Nil
  show ?case by simp
next
  case (Cons r rs)
  have one: "sum_list (map (\<lambda>a. if h r = a \<and> Q r then 1 else 0) ks) = (if Q r then 1 else (0::nat))"
  proof -
    have "sum_list (map (\<lambda>a. if h r = a \<and> Q r then 1 else 0) ks)
        = (if Q r \<and> h r \<in> set ks then 1 else (0::nat))"
      using assms(1) by (induction ks) auto
    then show ?thesis using Cons.prems by auto
  qed
  have "sum_list (map (\<lambda>a. length (filter (\<lambda>r. h r = a \<and> Q r) (r # rs))) ks)
      = sum_list (map (\<lambda>a. (if h r = a \<and> Q r then 1 else 0)
          + length (filter (\<lambda>r. h r = a \<and> Q r) rs)) ks)"
    by (intro arg_cong [where f = sum_list] map_cong) auto
  also have "\<dots> = sum_list (map (\<lambda>a. if h r = a \<and> Q r then 1 else 0) ks)
      + sum_list (map (\<lambda>a. length (filter (\<lambda>r. h r = a \<and> Q r) rs)) ks)"
    by (rule sum_list_addf)
  also have "\<dots> = (if Q r then 1 else 0) + length (filter Q rs)"
    using Cons by (simp add: one)
  finally show ?case by simp
qed

lemma falsePositives_counted:
  assumes actual: "\<forall>r \<in> set data. \<not> inherited (dr_humanLabel r)"
    and label: "\<not> inherited label"
  shows "falsePositives (snd (snd (foldl countRow (0, [], []) data))) label
     = Some (falsePositivesOf data label)"
proof -
  let ?m = "snd (snd (foldl countRow (0, [], []) data))"
  have d: "distinct (map fst ?m)" and k: "set (map fst ?m) = set (map dr_humanLabel data)"
    and c: "\<And>a. matrixCount ?m a label
           = length (filter (\<lambda>r. dr_humanLabel r = a \<and> dr_llmLabel r = label) data)"
    using countRow_fold [OF actual] label by blast+
  have "sum_list (map (\<lambda>(a, r). if a \<noteq> label then rowCount r label else 0) ?m) =
      sum_list (map (\<lambda>a. if a \<noteq> label then matrixCount ?m a label else 0) (map fst ?m))"
    using d by (rule sum_by_matrix_key)
  also have "\<dots> = sum_list (map (\<lambda>a. length (filter (\<lambda>r. dr_humanLabel r = a
        \<and> (dr_humanLabel r \<noteq> label \<and> dr_llmLabel r = label)) data)) (map fst ?m))"
  proof (intro arg_cong [where f = sum_list] map_cong refl)
    fix a
    show "(if a \<noteq> label then matrixCount ?m a label else 0)
        = length (filter (\<lambda>r. dr_humanLabel r = a
            \<and> (dr_humanLabel r \<noteq> label \<and> dr_llmLabel r = label)) data)"
      by (cases "a = label") (auto simp: c intro: arg_cong [where f = length] filter_cong)
  qed
  also have "\<dots> = length (filter (\<lambda>r. dr_humanLabel r \<noteq> label \<and> dr_llmLabel r = label) data)"
    using d k by (intro sum_by_key) simp_all
  finally show ?thesis
    by (simp add: falsePositives_sum [OF label] falsePositivesOf_def)
qed

text \<open>The second loop, one label at a time.\<close>

lemma labelMetrics_other:
  assumes "x \<noteq> label"
  shows "map_of (labelMetrics m stats label) x = map_of stats x"
proof -
  define stats1 where
    "stats1 = (if map_of stats label = None \<and> \<not> inherited label
               then AList.update label newStat stats else stats)"
  have s1: "map_of stats1 x = map_of stats x"
    unfolding stats1_def using assms by (simp add: update_conv')
  show ?thesis
    unfolding labelMetrics_def stats1_def [symmetric] Let_def
    using assms s1 by (cases "map_of stats1 label") (simp_all add: update_conv')
qed

lemma labelMetrics_inherited:
  assumes "inherited label" and "map_of stats label = None"
  shows "labelMetrics m stats label = stats"
  using assms by (simp add: labelMetrics_def)

lemma labelMetrics_self:
  assumes "\<not> inherited label" and "falsePositives m label = Some fp"
  shows "\<exists>s. map_of (labelMetrics m stats label) label = Some s
     \<and> st_total s = st_total (case map_of stats label of None \<Rightarrow> newStat | Some s \<Rightarrow> s)
     \<and> st_correct s = st_correct (case map_of stats label of None \<Rightarrow> newStat | Some s \<Rightarrow> s)
     \<and> (st_precision s, st_recall s, st_f1Score s)
         = metricsOf (st_correct (case map_of stats label of None \<Rightarrow> newStat | Some s \<Rightarrow> s))
                     fp
                     (st_total (case map_of stats label of None \<Rightarrow> newStat | Some s \<Rightarrow> s))"
proof -
  define stats1 where
    "stats1 = (if map_of stats label = None \<and> \<not> inherited label
               then AList.update label newStat stats else stats)"
  define s0 where "s0 = (case map_of stats label of None \<Rightarrow> newStat | Some s \<Rightarrow> s)"
  have "stats1 = (if map_of stats label = None then AList.update label newStat stats else stats)"
    unfolding stats1_def using assms(1) by simp
  then have s1: "map_of stats1 label = Some s0"
    unfolding s0_def by (simp add: ensure_lookup)
  show ?thesis
    unfolding labelMetrics_def stats1_def [symmetric] s0_def [symmetric] Let_def s1 assms(2)
    by (simp add: update_conv' metricsOf_def Let_def)
qed

lemma labelMetrics_fold_other:
  "x \<notin> set ls \<Longrightarrow> map_of (foldl (labelMetrics m) stats ls) x = map_of stats x"
  by (induction ls arbitrary: stats) (simp_all add: labelMetrics_other)

lemma labelMetrics_fold_self:
  assumes "distinct ls" and "x \<in> set ls"
    and "\<not> inherited x" and "falsePositives m x = Some fp"
  shows "\<exists>s. map_of (foldl (labelMetrics m) stats ls) x = Some s
     \<and> st_total s = st_total (case map_of stats x of None \<Rightarrow> newStat | Some s \<Rightarrow> s)
     \<and> st_correct s = st_correct (case map_of stats x of None \<Rightarrow> newStat | Some s \<Rightarrow> s)
     \<and> (st_precision s, st_recall s, st_f1Score s)
         = metricsOf (st_correct (case map_of stats x of None \<Rightarrow> newStat | Some s \<Rightarrow> s))
                     fp
                     (st_total (case map_of stats x of None \<Rightarrow> newStat | Some s \<Rightarrow> s))"
  using assms(1,2)
proof (induction ls arbitrary: stats)
  case Nil
  then show ?case by simp
next
  case (Cons l ls)
  show ?case
  proof (cases "x = l")
    case True
    then have "x \<notin> set ls" using Cons.prems by simp
    then have "map_of (foldl (labelMetrics m) stats (l # ls)) x
        = map_of (labelMetrics m stats l) x"
      by (simp add: labelMetrics_fold_other)
    then show ?thesis
      using labelMetrics_self [OF assms(3,4), of stats] True by simp
  next
    case False
    then have "x \<in> set ls" and "distinct ls" using Cons.prems by simp_all
    then show ?thesis
      using Cons.IH [of "labelMetrics m stats l"] False
      by (simp add: labelMetrics_other)
  qed
qed

lemma distinct_uniq: "distinct (uniq xs)"
  by (simp add: uniq_def)

lemma set_uniq: "set (uniq xs) = set xs"
  by (simp add: uniq_def)

lemma precisionOf_nonneg: "0 \<le> precisionOf data label"
  by (simp add: precisionOf_def)

lemma recallOf_nonneg: "0 \<le> recallOf data label"
  by (simp add: recallOf_def)

lemma metricsOf_spec:
  "metricsOf (truePositivesOf data label) (falsePositivesOf data label) (totalActual data label)
     = (precisionOf data label, recallOf data label, f1Of data label)"
proof -
  have p: "(if truePositivesOf data label + falsePositivesOf data label > 0
            then of_nat (truePositivesOf data label)
                 / of_nat (truePositivesOf data label + falsePositivesOf data label) else 0)
        = precisionOf data label"
    by (simp add: precisionOf_def)
  have r: "(if totalActual data label > 0
            then of_nat (truePositivesOf data label) / of_nat (totalActual data label) else 0)
        = recallOf data label"
    by (simp add: recallOf_def)
  have pos: "(precisionOf data label + recallOf data label > 0)
        \<longleftrightarrow> precisionOf data label + recallOf data label \<noteq> 0"
    using precisionOf_nonneg [of data label] recallOf_nonneg [of data label] by arith
  show ?thesis
    unfolding metricsOf_def p r Let_def
    by (simp add: pos f1Of_def mult.assoc)
qed

lemma calculateAccuracy_labels:
  assumes actual: "\<forall>r \<in> set data. \<not> inherited (dr_humanLabel r)"
    and occurs: "label \<in> set (map dr_humanLabel data) \<union> set (map dr_llmLabel data)"
    and own: "\<not> inherited label"
  shows "\<exists>s. map_of (labelStats (calculateAccuracy data)) label = Some s
        \<and> st_total s = totalActual data label
        \<and> st_correct s = truePositivesOf data label
        \<and> st_precision s = precisionOf data label
        \<and> st_recall s = recallOf data label
        \<and> st_f1Score s = f1Of data label"
proof -
  obtain totalCorrect stats matrix
    where f: "foldl countRow (0, [], []) data = (totalCorrect, stats, matrix)"
    by (cases "foldl countRow (0, [], []) data") auto
  have keys: "set (map fst stats) = set (map dr_humanLabel data)"
    and look: "\<And>x. (case map_of stats x of None \<Rightarrow> newStat | Some s \<Rightarrow> s)
        = newStat\<lparr>st_total := totalActual data x, st_correct := truePositivesOf data x\<rparr>"
    using countRow_fold [OF actual] unfolding f by simp_all
  have fp: "falsePositives matrix label = Some (falsePositivesOf data label)"
    using falsePositives_counted [OF actual own] unfolding f by simp
  let ?ls = "uniq (map fst stats @ map dr_llmLabel data)"
  have stats': "labelStats (calculateAccuracy data) = foldl (labelMetrics matrix) stats ?ls"
    by (simp add: calculateAccuracy_def f Let_def)
  have "label \<in> set ?ls" using occurs keys by (simp add: set_uniq)
  then obtain s where s: "map_of (foldl (labelMetrics matrix) stats ?ls) label = Some s"
    "st_total s = st_total (case map_of stats label of None \<Rightarrow> newStat | Some s \<Rightarrow> s)"
    "st_correct s = st_correct (case map_of stats label of None \<Rightarrow> newStat | Some s \<Rightarrow> s)"
    "(st_precision s, st_recall s, st_f1Score s)
         = metricsOf (st_correct (case map_of stats label of None \<Rightarrow> newStat | Some s \<Rightarrow> s))
                     (falsePositivesOf data label)
                     (st_total (case map_of stats label of None \<Rightarrow> newStat | Some s \<Rightarrow> s))"
    using labelMetrics_fold_self [where ls = ?ls and stats = stats, OF distinct_uniq _ own fp]
    by blast
  have t: "st_total s = totalActual data label" and c: "st_correct s = truePositivesOf data label"
    using s(2,3) unfolding look by simp_all
  have "(st_precision s, st_recall s, st_f1Score s)
        = (precisionOf data label, recallOf data label, f1Of data label)"
    using s(4) unfolding look by (simp add: metricsOf_spec)
  then show ?thesis using s(1) t c unfolding stats' by simp
qed

lemma calculateAccuracy_overall:
  "accuracy (calculateAccuracy data) =
     (if data = [] then 0
      else of_nat (length (filter (\<lambda>r. dr_humanLabel r = dr_llmLabel r) data))
           / of_nat (length data) * 100)"
proof -
  obtain totalCorrect stats matrix
    where f: "foldl countRow (0, [], []) data = (totalCorrect, stats, matrix)"
    by (cases "foldl countRow (0, [], []) data") auto
  have "totalCorrect = length (filter (\<lambda>r. dr_humanLabel r = dr_llmLabel r) data)"
    using countRow_total_fold [of data] unfolding f by simp
  then show ?thesis by (simp add: calculateAccuracy_def f Let_def)
qed

text \<open>
  C6, as amended. For every list of rows in which no label, actual or predicted, names
  a property inherited from \<open>Object.prototype\<close>: the overall accuracy is the share of
  rows whose two labels are equal, as a percentage (0 for no rows), and for every label
  that occurs as an actual or as a predicted label \<open>calculateAccuracy\<close> stores:
  \<open>total\<close>, the number of rows with that actual label; \<open>correct\<close> (TP), the number of
  rows whose actual and predicted label are both the label; precision TP / (TP + FP),
  with FP the number of rows of another actual label predicted as the label, and 0
  when TP + FP = 0; recall TP / total, and 0 when total = 0; F1 = 2 P R / (P + R), and 0
  when P + R = 0. Numbers are exact rationals. For the rows (A,A), (A,B), (B,B), (B,B)
  this gives precision 1 and recall 1/2 for A, precision 2/3, recall 1 and F1 4/5 for
  B, and accuracy 75.
\<close>

theorem accuracy_metrics:
  "(\<forall>r \<in> set data. \<not> inherited (dr_humanLabel r) \<and> \<not> inherited (dr_llmLabel r)) \<longrightarrow>
     accuracy (calculateAccuracy data) =
       (if data = [] then 0
        else of_nat (length (filter (\<lambda>r. dr_humanLabel r = dr_llmLabel r) data))
             / of_nat (length data) * 100)
     \<and> (\<forall>label \<in> set (map dr_humanLabel data) \<union> set (map dr_llmLabel data).
           \<exists>s. map_of (labelStats (calculateAccuracy data)) label = Some s
              \<and> st_total s = totalActual data label
              \<and> st_correct s = truePositivesOf data label
              \<and> st_precision s = precisionOf data label
              \<and> st_recall s = recallOf data label
              \<and> st_f1Score s = f1Of data label)"
proof (intro impI conjI ballI)
  show "accuracy (calculateAccuracy data) =
       (if data = [] then 0
        else of_nat (length (filter (\<lambda>r. dr_humanLabel r = dr_llmLabel r) data))
             / of_nat (length data) * 100)"
    by (rule calculateAccuracy_overall)
next
  fix label
  assume plain: "\<forall>r \<in> set data. \<not> inherited (dr_humanLabel r) \<and> \<not> inherited (dr_llmLabel r)"
    and occurs: "label \<in> set (map dr_humanLabel data) \<union> set (map dr_llmLabel data)"
  have actual: "\<forall>r \<in> set data. \<not> inherited (dr_humanLabel r)" using plain by blast
  have own: "\<not> inherited label" using plain occurs by auto
  show "\<exists>s. map_of (labelStats (calculateAccuracy data)) label = Some s
              \<and> st_total s = totalActual data label
              \<and> st_correct s = truePositivesOf data label
              \<and> st_precision s = precisionOf data label
              \<and> st_recall s = recallOf data label
              \<and> st_f1Score s = f1Of data label"
    using actual occurs own by (rule calculateAccuracy_labels)
qed

lemma abRows_numbers:
  "precisionOf abRows ''A'' = 1 \<and> recallOf abRows ''A'' = 1 / 2
   \<and> precisionOf abRows ''B'' = 2 / 3 \<and> recallOf abRows ''B'' = 1
   \<and> f1Of abRows ''B'' = 4 / 5
   \<and> length (filter (\<lambda>r. dr_humanLabel r = dr_llmLabel r) abRows) = 3
   \<and> length abRows = 4"
  by code_simp

theorem accuracy_metrics_witness:
  "\<not> inherited ''A'' \<and> \<not> inherited ''B''
   \<and> (\<exists>s. map_of (labelStats (calculateAccuracy abRows)) ''A'' = Some s
        \<and> st_precision s = 1 \<and> st_recall s = 1 / 2)
   \<and> (\<exists>s. map_of (labelStats (calculateAccuracy abRows)) ''B'' = Some s
        \<and> st_precision s = 2 / 3 \<and> st_recall s = 1 \<and> st_f1Score s = 4 / 5)
   \<and> accuracy (calculateAccuracy abRows) = 75"
proof -
  have labels: "set (map dr_humanLabel abRows) \<union> set (map dr_llmLabel abRows) = {''A'', ''B''}"
    by code_simp
  have own: "\<not> inherited ''A''" "\<not> inherited ''B''" by code_simp+
  have plain: "\<forall>r \<in> set abRows. \<not> inherited (dr_humanLabel r) \<and> \<not> inherited (dr_llmLabel r)"
    using own by (simp add: abRows_def mkRow_def)
  have ne: "abRows \<noteq> []" by (simp add: abRows_def)
  note m = accuracy_metrics [of abRows, unfolded labels, THEN mp, OF plain]
  have a: "\<exists>s. map_of (labelStats (calculateAccuracy abRows)) ''A'' = Some s
        \<and> st_precision s = precisionOf abRows ''A'' \<and> st_recall s = recallOf abRows ''A''"
    using m by blast
  have b: "\<exists>s. map_of (labelStats (calculateAccuracy abRows)) ''B'' = Some s
        \<and> st_precision s = precisionOf abRows ''B'' \<and> st_recall s = recallOf abRows ''B''
        \<and> st_f1Score s = f1Of abRows ''B''"
    using m by blast
  have c: "accuracy (calculateAccuracy abRows) = 75"
    using m ne abRows_numbers by simp
  show ?thesis using a b c own abRows_numbers by simp
qed

text \<open>
  C6 as stated fails for a label that names an inherited property. For the single row
  (constructor, constructor) the label has precision, recall and F1 equal to 1 by the
  formulas, and \<open>labelStats\<close> gets no entry at all: \<open>labelStats['constructor']\<close> is truthy
  from the start. For the rows (constructor, A), (A, A) the first row is a false
  positive of A, so its precision is 1/2 by the formula; the row is counted on the
  built-in object, the loop over \<open>confusionMatrix\<close> does not see it, and the precision
  stored for A is 1.
\<close>

theorem inherited_label_has_no_entry:
  "labelStats (calculateAccuracy ctorRows) = []
   \<and> map dr_humanLabel ctorRows = [''constructor'']
   \<and> precisionOf ctorRows ''constructor'' = 1
   \<and> recallOf ctorRows ''constructor'' = 1
   \<and> f1Of ctorRows ''constructor'' = 1
   \<and> map dr_llmLabel shadowedRows = [''A'', ''A'']
   \<and> map_option st_precision (map_of (labelStats (calculateAccuracy shadowedRows)) ''A'')
       = Some 1
   \<and> precisionOf shadowedRows ''A'' = 1 / 2"
  by code_simp

end
